theory Spec2Isabelle
  imports Main
begin

section \<open>Python strings\<close>

text \<open>
  A Python \<^verbatim>\<open>str\<close> is modelled as a \<^typ>\<open>string\<close> holding its UTF-8 bytes.
  Searching, replacing and splitting on literals are the same on the bytes of well-formed
  UTF-8 as on code points.  The character classes (\<^verbatim>\<open>str.strip\<close>, \<^verbatim>\<open>str.split\<close>,
  \<^verbatim>\<open>str.lower\<close>, and \<^verbatim>\<open>\s\<close>, \<^verbatim>\<open>\d\<close>, \<^verbatim>\<open>\b\<close> of \<^verbatim>\<open>re\<close>) are the ASCII part of
  Python's Unicode classes: a byte above 127 is neither white space, nor a digit, nor a
  word character, and has no other case.
\<close>

definition isspace :: "char \<Rightarrow> bool" where
  "isspace c = (c \<in> set [CHR 0x09, CHR 0x0A, CHR 0x0B, CHR 0x0C, CHR 0x0D,
                           CHR 0x1C, CHR 0x1D, CHR 0x1E, CHR 0x1F, CHR '' ''])"

definition isdigit :: "char \<Rightarrow> bool" where
  "isdigit c = (c \<in> set ''0123456789'')"

definition isupper :: "char \<Rightarrow> bool" where
  "isupper c = (c \<in> set ''ABCDEFGHIJKLMNOPQRSTUVWXYZ'')"

definition islower :: "char \<Rightarrow> bool" where
  "islower c = (c \<in> set ''abcdefghijklmnopqrstuvwxyz'')"

definition isword :: "char \<Rightarrow> bool" where
  "isword c = (isdigit c \<or> isupper c \<or> islower c \<or> c = CHR ''_'')"

definition lower_char :: "char \<Rightarrow> char" where
  "lower_char c =
     (case map_of (zip ''ABCDEFGHIJKLMNOPQRSTUVWXYZ'' ''abcdefghijklmnopqrstuvwxyz'') c of
        Some l \<Rightarrow> l
      | None \<Rightarrow> c)"

definition lower :: "string \<Rightarrow> string" where
  "lower s = map lower_char s"

definition strip :: "string \<Rightarrow> string" where
  "strip s = rev (dropWhile isspace (rev (dropWhile isspace s)))"

definition startswith :: "string \<Rightarrow> string \<Rightarrow> bool" where
  "startswith s p = (take (length p) s = p)"

definition endswith :: "string \<Rightarrow> string \<Rightarrow> bool" where
  "endswith s p = (length p \<le> length s \<and> drop (length s - length p) s = p)"

text \<open>\<^verbatim>\<open>sub in s\<close>.\<close>

fun contains :: "string \<Rightarrow> string \<Rightarrow> bool" where
  "contains [] sub = (sub = [])"
| "contains (c # cs) sub = (startswith (c # cs) sub \<or> contains cs sub)"

text \<open>
  \<^verbatim>\<open>s.replace(old, new)\<close>: the occurrences of \<^verbatim>\<open>old\<close> are replaced from left to right
  without overlap.  \<open>skip\<close> counts the characters of an occurrence still to be dropped.
  With an empty \<^verbatim>\<open>old\<close> Python puts \<^verbatim>\<open>new\<close> before every character and at the end.
\<close>

fun replace_from :: "nat \<Rightarrow> string \<Rightarrow> string \<Rightarrow> string \<Rightarrow> string" where
  "replace_from skip [] old new = []"
| "replace_from (Suc k) (c # cs) old new = replace_from k cs old new"
| "replace_from 0 (c # cs) old new =
     (if startswith (c # cs) old then new @ replace_from (length old - 1) cs old new
      else c # replace_from 0 cs old new)"

definition replace :: "string \<Rightarrow> string \<Rightarrow> string \<Rightarrow> string" where
  "replace s old new =
     (if old = [] then new @ concat (map (\<lambda>c. c # new) s) else replace_from 0 s old new)"

text \<open>\<^verbatim>\<open>s.split()\<close>: the maximal runs of characters that are not white space.\<close>

fun split_ws_from :: "string \<Rightarrow> string \<Rightarrow> string list" where
  "split_ws_from cur [] = (if cur = [] then [] else [cur])"
| "split_ws_from cur (c # cs) =
     (if isspace c then (if cur = [] then split_ws_from [] cs else cur # split_ws_from [] cs)
      else split_ws_from (cur @ [c]) cs)"

definition split_ws :: "string \<Rightarrow> string list" where
  "split_ws s = split_ws_from [] s"

text \<open>\<^verbatim>\<open>s.split(sep)\<close> for a separator of one character: always at least one piece.\<close>

fun split_sep :: "char \<Rightarrow> string \<Rightarrow> string list" where
  "split_sep d [] = [[]]"
| "split_sep d (c # cs) =
     (if c = d then [] # split_sep d cs
      else (case split_sep d cs of
              [] \<Rightarrow> [[c]]
            | x # xs \<Rightarrow> (c # x) # xs))"

text \<open>\<^verbatim>\<open>sep.join(parts)\<close>.\<close>

fun join :: "string \<Rightarrow> string list \<Rightarrow> string" where
  "join sep [] = []"
| "join sep [x] = x"
| "join sep (x # y # ys) = x @ sep @ join sep (y # ys)"

text \<open>
  \<^verbatim>\<open>s.rsplit(sep, 1)\<close> for a separator of one character that occurs in \<^verbatim>\<open>s\<close>: the text
  before the last separator and the text after it.
\<close>

definition rsplit1 :: "char \<Rightarrow> string \<Rightarrow> string \<times> string" where
  "rsplit1 d s =
     (rev (drop 1 (dropWhile (\<lambda>c. c \<noteq> d) (rev s))), rev (takeWhile (\<lambda>c. c \<noteq> d) (rev s)))"

text \<open>Truthiness of an optional string: \<^verbatim>\<open>None\<close> and \<^verbatim>\<open>""\<close> are false.\<close>

definition truthy :: "string option \<Rightarrow> bool" where
  "truthy v = (case v of None \<Rightarrow> False | Some s \<Rightarrow> s \<noteq> [])"

text \<open>\<^verbatim>\<open>s or None\<close>.\<close>

definition or_None :: "string \<Rightarrow> string option" where
  "or_None s = (if s = [] then None else Some s)"

text \<open>The character U+2026 (horizontal ellipsis), in UTF-8.\<close>

definition ellipsis :: string where
  "ellipsis = [CHR 0xE2, CHR 0x80, CHR 0xA6]"

definition normalize_spacing :: "string \<Rightarrow> string" where
  "normalize_spacing v = join '' '' (split_ws v)"

section \<open>Truncation detection\<close>

definition has_ellipsis :: "string option \<Rightarrow> bool" where
  "has_ellipsis text =
     (case text of
        None \<Rightarrow> False
      | Some t \<Rightarrow> if t = [] then False else contains t ellipsis \<or> endswith t ''...'')"

section \<open>The regular expressions\<close>

text \<open>
  Each pattern is a matcher written by hand: \<open>X_match\<close> matches the pattern at the start
  of its argument and \<open>X_search\<close> is \<^verbatim>\<open>re.search\<close>, the match at the leftmost position
  that has one.  No pattern has two ways to match at one position (a greedy \<^verbatim>\<open>\s*\<close> or
  \<^verbatim>\<open>\d+\<close> is always followed by a character outside its class), so the matchers need no
  backtracking.
\<close>

text \<open>\<^verbatim>\<open>\d{2}:\d{2}\<close>: the text matched and the rest.\<close>

fun match_hhmm :: "string \<Rightarrow> (string \<times> string) option" where
  "match_hhmm (a # b # c # d # e # rest) =
     (if isdigit a \<and> isdigit b \<and> c = CHR '':'' \<and> isdigit d \<and> isdigit e
      then Some ([a, b, c, d, e], rest) else None)"
| "match_hhmm s = None"

text \<open>
  \<^verbatim>\<open>TIME_RE = \((\d{2}:\d{2})\s*-\s*(\d{2}:\d{2})\)\<close>: the two groups.
\<close>

definition TIME_RE_match :: "string \<Rightarrow> (string \<times> string) option" where
  "TIME_RE_match s =
     (case s of
        [] \<Rightarrow> None
      | p # s1 \<Rightarrow>
          if p \<noteq> CHR ''('' then None
          else (case match_hhmm s1 of
                  None \<Rightarrow> None
                | Some (g1, s2) \<Rightarrow>
                    (case dropWhile isspace s2 of
                       [] \<Rightarrow> None
                     | m # s3 \<Rightarrow>
                         if m \<noteq> CHR ''-'' then None
                         else (case match_hhmm (dropWhile isspace s3) of
                                 None \<Rightarrow> None
                               | Some (g2, s4) \<Rightarrow>
                                   (case s4 of
                                      [] \<Rightarrow> None
                                    | q # s5 \<Rightarrow>
                                        if q = CHR '')'' then Some (g1, g2) else None)))))"

fun TIME_RE_search :: "string \<Rightarrow> (string \<times> string) option" where
  "TIME_RE_search [] = None"
| "TIME_RE_search (c # cs) =
     (case TIME_RE_match (c # cs) of
        Some g \<Rightarrow> Some g
      | None \<Rightarrow> TIME_RE_search cs)"

text \<open>\<^verbatim>\<open>\d{4}\<close>: the text matched and the rest.\<close>

fun match_d4 :: "string \<Rightarrow> (string \<times> string) option" where
  "match_d4 (a # b # c # d # rest) =
     (if isdigit a \<and> isdigit b \<and> isdigit c \<and> isdigit d then Some ([a, b, c, d], rest)
      else None)"
| "match_d4 s = None"

text \<open>
  \<^verbatim>\<open>SESSION_RE = \b(\d{4})\s*-\s*(\d{4})\b\<close>: group 0, the whole text matched.  \<open>prev\<close>
  is the character before the position, if there is one: the match starts and ends
  with a digit, so \<^verbatim>\<open>\b\<close> asks for no word character before it and none after it.
\<close>

definition SESSION_RE_match :: "char option \<Rightarrow> string \<Rightarrow> string option" where
  "SESSION_RE_match prev s =
     (if (case prev of None \<Rightarrow> False | Some p \<Rightarrow> isword p) then None
      else (case match_d4 s of
              None \<Rightarrow> None
            | Some (y1, s1) \<Rightarrow>
                (case dropWhile isspace s1 of
                   [] \<Rightarrow> None
                 | m # s3 \<Rightarrow>
                     if m \<noteq> CHR ''-'' then None
                     else (case match_d4 (dropWhile isspace s3) of
                             None \<Rightarrow> None
                           | Some (y2, s4) \<Rightarrow>
                               if (case s4 of [] \<Rightarrow> False | n # s5 \<Rightarrow> isword n) then None
                               else Some (y1 @ takeWhile isspace s1 @ [m]
                                          @ takeWhile isspace s3 @ y2)))))"

fun SESSION_RE_search_from :: "char option \<Rightarrow> string \<Rightarrow> string option" where
  "SESSION_RE_search_from prev [] = None"
| "SESSION_RE_search_from prev (c # cs) =
     (case SESSION_RE_match prev (c # cs) of
        Some g \<Rightarrow> Some g
      | None \<Rightarrow> SESSION_RE_search_from (Some c) cs)"

definition SESSION_RE_search :: "string \<Rightarrow> string option" where
  "SESSION_RE_search s = SESSION_RE_search_from None s"

text \<open>\<^verbatim>\<open>SEMESTER_RE = Semester#\s*(\d+)\<close>: group 0 and group 1.\<close>

definition SEMESTER_RE_match :: "string \<Rightarrow> (string \<times> string) option" where
  "SEMESTER_RE_match s =
     (if \<not> startswith s ''Semester#'' then None
      else (let r = drop 9 s;
                w = takeWhile isspace r;
                ds = takeWhile isdigit (dropWhile isspace r)
            in if ds = [] then None else Some (''Semester#'' @ w @ ds, ds)))"

fun SEMESTER_RE_search :: "string \<Rightarrow> (string \<times> string) option" where
  "SEMESTER_RE_search [] = None"
| "SEMESTER_RE_search (c # cs) =
     (case SEMESTER_RE_match (c # cs) of
        Some g \<Rightarrow> Some g
      | None \<Rightarrow> SEMESTER_RE_search cs)"

text \<open>
  \<^verbatim>\<open>int(digits)\<close> on a string of decimal digits.  The function is total: an
  interpreter that limits the length of the conversion (4300 digits by default from
  CPython 3.11) raises \<^verbatim>\<open>ValueError\<close> on a longer run of digits, which is not modelled.
\<close>

definition digit_val :: "char \<Rightarrow> int" where
  "digit_val c =
     (case map_of (zip ''0123456789'' [0, 1, 2, 3, 4, 5, 6, 7, 8, 9]) c of
        Some v \<Rightarrow> v
      | None \<Rightarrow> 0)"

definition int_of_digits :: "string \<Rightarrow> int" where
  "int_of_digits ds = foldl (\<lambda>a c. 10 * a + digit_val c) 0 ds"

text \<open>A literal of a pattern compiled with \<^verbatim>\<open>re.IGNORECASE\<close>, at the start of \<open>s\<close>.\<close>

definition istartswith :: "string \<Rightarrow> string \<Rightarrow> bool" where
  "istartswith s p = (length p \<le> length s \<and> lower (take (length p) s) = lower p)"

text \<open>
  \<^verbatim>\<open>re.match(r"^(BS|MS|PhD)\s+(?:in\s+)?", cleaned, re.IGNORECASE)\<close>: group 1 as it
  stands in the text, and the end of the match.
\<close>

definition degree_token :: "string \<Rightarrow> nat option" where
  "degree_token s =
     (if istartswith s ''BS'' then Some 2
      else if istartswith s ''MS'' then Some 2
      else if istartswith s ''PhD'' then Some 3
      else None)"

definition DEGREE_RE_match :: "string \<Rightarrow> (string \<times> nat) option" where
  "DEGREE_RE_match s =
     (case degree_token s of
        None \<Rightarrow> None
      | Some n \<Rightarrow>
          (let r = drop n s;
               w = takeWhile isspace r
           in if w = [] then None
              else (let r2 = dropWhile isspace r;
                        w2 = takeWhile isspace (drop 2 r2)
                    in if istartswith r2 ''in'' \<and> w2 \<noteq> []
                       then Some (take n s, n + length w + 2 + length w2)
                       else Some (take n s, n + length w))))"

text \<open>
  \<^verbatim>\<open>re.search(r"(Regular|Self Support)\s*\d+", remainder, re.IGNORECASE)\<close>: the start
  of the match and group 0.
\<close>

definition section_token :: "string \<Rightarrow> nat option" where
  "section_token s =
     (if istartswith s ''Regular'' then Some 7
      else if istartswith s ''Self Support'' then Some 12
      else None)"

definition SECTION_RE_match :: "string \<Rightarrow> string option" where
  "SECTION_RE_match s =
     (case section_token s of
        None \<Rightarrow> None
      | Some n \<Rightarrow>
          (let r = drop n s;
               w = takeWhile isspace r;
               ds = takeWhile isdigit (dropWhile isspace r)
           in if ds = [] then None else Some (take n s @ w @ ds)))"

fun SECTION_RE_search_from :: "nat \<Rightarrow> string \<Rightarrow> (nat \<times> string) option" where
  "SECTION_RE_search_from i [] = None"
| "SECTION_RE_search_from i (c # cs) =
     (case SECTION_RE_match (c # cs) of
        Some g \<Rightarrow> Some (i, g)
      | None \<Rightarrow> SECTION_RE_search_from (Suc i) cs)"

definition SECTION_RE_search :: "string \<Rightarrow> (nat \<times> string) option" where
  "SECTION_RE_search s = SECTION_RE_search_from 0 s"

text \<open>\<^verbatim>\<open>re.match(r"^combined\s*\(\d+\)", text)\<close>.\<close>

definition COMBINED_RE_match :: "string \<Rightarrow> bool" where
  "COMBINED_RE_match s =
     (startswith s ''combined'' \<and>
      (case dropWhile isspace (drop 8 s) of
         [] \<Rightarrow> False
       | p # r \<Rightarrow>
           p = CHR ''('' \<and> takeWhile isdigit r \<noteq> [] \<and>
           (case dropWhile isdigit r of
              [] \<Rightarrow> False
            | q # r' \<Rightarrow> q = CHR '')'')))"

section \<open>Sessions\<close>

text \<open>
  The dataclass \<^verbatim>\<open>ParsedSession\<close>.  \<^verbatim>\<open>to_dict\<close> copies the seventeen fields into a
  dictionary with the same keys, so the dictionaries of the timetable are values of the
  same record.  The field \<^verbatim>\<open>section\<close> is \<open>section'\<close> here.
\<close>

record ParsedSession =
  combined_class :: "string option"
  course_title :: "string option"
  course_code :: "string option"
  course_truncated :: bool
  program_line :: "string option"
  program_truncated :: bool
  degree :: "string option"
  program :: "string option"
  section' :: "string option"
  session :: "string option"
  semester :: "int option"
  teacher_name :: "string option"
  teacher_truncated :: bool
  start_time :: "string option"
  end_time :: "string option"
  practical :: bool
  raw_lines :: "string list"

section \<open>Fields of a session\<close>

definition is_combined_header :: "string \<Rightarrow> bool" where
  "is_combined_header v =
     (let text = lower (strip v)
      in if startswith text ''combined class'' then True else COMBINED_RE_match text)"

definition split_course_line :: "string option \<Rightarrow> string option \<times> string option" where
  "split_course_line course_line =
     (case course_line of
        None \<Rightarrow> (None, None)
      | Some cl \<Rightarrow>
          if cl = [] then (None, None)
          else if \<not> contains cl ''#'' then (Some (strip cl), None)
          else (case rsplit1 CHR ''#'' cl of
                  (left, right) \<Rightarrow> (or_None (strip left), or_None (strip right))))"

text \<open>
  The loops of \<^verbatim>\<open>resolve_program_line\<close> over the reference pool; \<open>sv\<close> and \<open>mv\<close> are
  \<^verbatim>\<open>session_value\<close> and \<^verbatim>\<open>semester_value\<close>.  The pool is a list, as
  \<^verbatim>\<open>extract_program_lines\<close> returns it, so both loops see all of it.
\<close>

fun resolve_pass1 :: "string \<Rightarrow> string option \<Rightarrow> string option \<Rightarrow> string list \<Rightarrow> string option"
  where
  "resolve_pass1 prefix sv mv [] = None"
| "resolve_pass1 prefix sv mv (candidate # rest) =
     (if (case sv of None \<Rightarrow> False | Some v \<Rightarrow> v \<noteq> [] \<and> \<not> contains candidate v)
      then resolve_pass1 prefix sv mv rest
      else if (case mv of None \<Rightarrow> False
               | Some v \<Rightarrow> v \<noteq> [] \<and> \<not> contains (replace candidate '' '' []) v)
      then resolve_pass1 prefix sv mv rest
      else if prefix \<noteq> [] \<and> startswith candidate prefix then Some candidate
      else resolve_pass1 prefix sv mv rest)"

fun resolve_pass2 :: "string option \<Rightarrow> string option \<Rightarrow> string list \<Rightarrow> string option" where
  "resolve_pass2 sv mv [] = None"
| "resolve_pass2 sv mv (candidate # rest) =
     (if (case sv of None \<Rightarrow> False | Some v \<Rightarrow> v \<noteq> [] \<and> contains candidate v)
      then (if (case mv of None \<Rightarrow> True
                | Some v \<Rightarrow> v = [] \<or> contains (replace candidate '' '' []) v)
            then Some candidate
            else resolve_pass2 sv mv rest)
      else resolve_pass2 sv mv rest)"

definition session_value :: "string \<Rightarrow> string option" where
  "session_value pline = SESSION_RE_search pline"

definition semester_value :: "string \<Rightarrow> string option" where
  "semester_value pline =
     (case SEMESTER_RE_search pline of
        None \<Rightarrow> None
      | Some (g0, g1) \<Rightarrow> Some (replace g0 '' '' []))"

definition resolve_program_line :: "string \<Rightarrow> string list \<Rightarrow> string" where
  "resolve_program_line pline reference_programs =
     (let prefix = strip (replace pline ellipsis []);
          sv = session_value pline;
          mv = semester_value pline
      in case resolve_pass1 prefix sv mv reference_programs of
           Some candidate \<Rightarrow> candidate
         | None \<Rightarrow>
             (case resolve_pass2 sv mv reference_programs of
                Some candidate \<Rightarrow> candidate
              | None \<Rightarrow> pline))"

text \<open>The variable \<^verbatim>\<open>cleaned\<close> of \<^verbatim>\<open>parse_program_fields\<close>; \<open>pline\<close> is its argument
  \<^verbatim>\<open>program_line\<close>.\<close>

definition cleaned :: "string \<Rightarrow> string" where
  "cleaned pline =
     join '' '' (split_ws (replace (replace pline ''('' '' ( '') '')'' '' ) ''))"

definition parse_program_fields ::
  "string option \<Rightarrow> string option \<times> string option \<times> string option \<times> string option \<times> int option"
  where
  "parse_program_fields pline =
     (case pline of
        None \<Rightarrow> (None, None, None, None, None)
      | Some pl \<Rightarrow>
          if pl = [] then (None, None, None, None, None)
          else (case DEGREE_RE_match (cleaned pl) of
                  None \<Rightarrow> (None, None, None, None, None)
                | Some (deg, e) \<Rightarrow>
                    (let remainder = drop e (cleaned pl);
                         section_match = SECTION_RE_search remainder;
                         prog = (case section_match of
                                   None \<Rightarrow> None
                                 | Some (start, g0) \<Rightarrow> or_None (strip (take start remainder)));
                         sect = (case section_match of
                                   None \<Rightarrow> None
                                 | Some (start, g0) \<Rightarrow> Some (normalize_spacing g0));
                         sess = (case SESSION_RE_search (cleaned pl) of
                                   None \<Rightarrow> None
                                 | Some g0 \<Rightarrow> Some (replace g0 '' '' []));
                         sem = (case SEMESTER_RE_search (cleaned pl) of
                                  None \<Rightarrow> None
                                | Some (g0, g1) \<Rightarrow> Some (int_of_digits g1))
                     in (Some deg, prog, sect, sess, sem))))"

text \<open>
  The scan for the teacher line: the last line with a time range, and its index.
\<close>

fun teacher_loop :: "nat \<Rightarrow> string list \<Rightarrow> (nat \<times> string) option \<Rightarrow> (nat \<times> string) option"
  where
  "teacher_loop idx [] found = found"
| "teacher_loop idx (line # rest) found =
     teacher_loop (Suc idx) rest
       (if TIME_RE_search line \<noteq> None then Some (idx, line) else found)"

text \<open>\<^verbatim>\<open>xs[i] if len(xs) > i else None\<close>.\<close>

definition item_or_None :: "string list \<Rightarrow> nat \<Rightarrow> string option" where
  "item_or_None xs i = (if i < length xs then Some (xs ! i) else None)"

text \<open>
  The header, course and program lines: \<^verbatim>\<open>combined_class\<close>, \<^verbatim>\<open>course_line\<close>,
  \<^verbatim>\<open>program_line\<close>.
\<close>

definition assign_lines ::
  "string list \<Rightarrow> string option \<times> string option \<times> string option" where
  "assign_lines meaningful_lines =
     (case meaningful_lines of
        [] \<Rightarrow> (None, None, None)
      | first # others \<Rightarrow>
          if is_combined_header first
          then (Some first, item_or_None meaningful_lines 1, item_or_None meaningful_lines 2)
          else (None, Some first, item_or_None meaningful_lines 1))"

text \<open>
  The teacher's name and the two times, from the teacher line: \<^verbatim>\<open>teacher_name\<close>,
  \<^verbatim>\<open>start_time\<close>, \<^verbatim>\<open>end_time\<close>.
\<close>

definition teacher_fields ::
  "string option \<Rightarrow> string option \<times> string option \<times> string option" where
  "teacher_fields teacher_line =
     (case teacher_line of
        None \<Rightarrow> (None, None, None)
      | Some tline \<Rightarrow>
          if tline = [] then (None, None, None)
          else (let name = or_None (strip (hd (split_sep CHR ''('' tline)))
                in case TIME_RE_search tline of
                     None \<Rightarrow> (name, None, None)
                   | Some (g1, g2) \<Rightarrow> (name, Some g1, Some g2)))"

definition parse_session :: "string list \<Rightarrow> string list \<Rightarrow> bool \<Rightarrow> bool \<Rightarrow> ParsedSession" where
  "parse_session lines reference_programs resolve_truncated keep_truncated =
     (let raw_lines_clean = filter (\<lambda>line. line \<noteq> []) (map strip lines);
          teacher = teacher_loop 0 raw_lines_clean None;
          content_lines = (case teacher of
                             None \<Rightarrow> raw_lines_clean
                           | Some (teacher_index, teacher_line) \<Rightarrow>
                               take teacher_index raw_lines_clean
                               @ drop (Suc teacher_index) raw_lines_clean);
          is_practical = (\<exists>line \<in> set content_lines. lower (strip line) = ''practical'');
          content_lines2 = filter (\<lambda>line. lower (strip line) \<noteq> ''practical'') content_lines;
          meaningful_lines = filter (\<lambda>line. line \<noteq> []) content_lines2
      in case assign_lines meaningful_lines of
           (combined, course_line, raw_program_line) \<Rightarrow>
      (case split_course_line course_line of
           (title, code) \<Rightarrow>
      (let is_program_truncated = has_ellipsis raw_program_line;
           final_program_line =
             (case raw_program_line of
                None \<Rightarrow> None
              | Some rpl \<Rightarrow>
                  if resolve_truncated \<and> is_program_truncated \<and> rpl \<noteq> [] \<and> \<not> keep_truncated
                  then Some (resolve_program_line rpl reference_programs)
                  else Some rpl)
       in case parse_program_fields final_program_line of
            (deg, prog, sect, sess, sem) \<Rightarrow>
      (case teacher_fields (map_option snd teacher) of
            (name, start, end') \<Rightarrow>
         \<lparr> combined_class = combined,
           course_title = title,
           course_code = code,
           course_truncated = has_ellipsis title,
           program_line = final_program_line,
           program_truncated = is_program_truncated,
           degree = deg,
           program = prog,
           section' = sect,
           session = sess,
           semester = sem,
           teacher_name = name,
           teacher_truncated = has_ellipsis name,
           start_time = start,
           end_time = end',
           practical = is_practical,
           raw_lines = raw_lines_clean \<rparr>))))"

section \<open>Cells\<close>

text \<open>
  The condition of the list comprehension of \<^verbatim>\<open>parse_cell\<close> on one line of the cell, and
  the comprehension.
\<close>

definition keep_line :: "string \<Rightarrow> bool" where
  "keep_line line =
     (strip line \<noteq> []
      \<and> lower (strip line) \<noteq> '' swap''
      \<and> \<not> startswith (lower (strip line)) ''was:''
      \<and> \<not> contains (lower (strip line)) ''delete'')"

definition cell_lines :: "string \<Rightarrow> string list" where
  "cell_lines text = map strip (filter keep_line (split_sep CHR 0x0A text))"

text \<open>
  The loop that groups the lines: \<^verbatim>\<open>current\<close> and \<^verbatim>\<open>sessions\<close> are its two variables.
\<close>

fun group_loop :: "string list \<Rightarrow> string list \<Rightarrow> string list list \<Rightarrow> string list list \<times> string list"
  where
  "group_loop [] current sessions = (sessions, current)"
| "group_loop (line # rest) current sessions =
     (if TIME_RE_search line \<noteq> None then group_loop rest [] (sessions @ [current @ [line]])
      else group_loop rest (current @ [line]) sessions)"

definition group_lines :: "string list \<Rightarrow> string list list" where
  "group_lines lines =
     (case group_loop lines [] [] of
        (sessions, current) \<Rightarrow> if current \<noteq> [] then sessions @ [current] else sessions)"

definition parse_cell :: "string \<Rightarrow> string list \<Rightarrow> bool \<Rightarrow> bool \<Rightarrow> ParsedSession list" where
  "parse_cell cell_value reference_programs resolve_truncated keep_truncated =
     (let text = strip cell_value
      in if text = [] then []
         else (let lines = cell_lines text
               in if lines = [] then []
                  else map (\<lambda>session_lines.
                              parse_session session_lines reference_programs
                                resolve_truncated keep_truncated)
                           (group_lines lines)))"

section \<open>The day of a column\<close>

definition DAY_NAMES :: "string list" where
  "DAY_NAMES = [''Monday'', ''Tuesday'', ''Wednesday'', ''Thursday'', ''Friday'', ''Saturday'',
                ''Sunday'']"

definition normalize_day :: "string \<Rightarrow> string option" where
  "normalize_day v = find (\<lambda>day. startswith (lower (strip v)) (lower day)) DAY_NAMES"

text \<open>
  The loop of \<^verbatim>\<open>parse_timetable\<close> over the header row, with its variables \<^verbatim>\<open>last_day\<close>
  and \<^verbatim>\<open>day_columns\<close>; the dictionary is a map from the column's index, and
  \<open>set_item\<close> is the assignment \<^verbatim>\<open>day_columns[idx] = v\<close> of a value that is not \<^verbatim>\<open>None\<close>.
\<close>

definition set_item :: "(nat \<rightharpoonup> string) \<Rightarrow> nat \<Rightarrow> string option \<Rightarrow> (nat \<rightharpoonup> string)" where
  "set_item day_columns idx v = (case v of None \<Rightarrow> day_columns | Some d \<Rightarrow> day_columns(idx \<mapsto> d))"

fun day_columns_loop ::
  "nat \<Rightarrow> string list \<Rightarrow> string option \<Rightarrow> (nat \<rightharpoonup> string) \<Rightarrow> (nat \<rightharpoonup> string)" where
  "day_columns_loop idx [] last_day day_columns = day_columns"
| "day_columns_loop idx (v # rest) last_day day_columns =
     (let day = normalize_day v
      in if truthy day
         then day_columns_loop (Suc idx) rest day (set_item day_columns idx day)
         else if 0 < idx \<and> truthy last_day \<and> v = []
         then day_columns_loop (Suc idx) rest last_day (set_item day_columns idx last_day)
         else day_columns_loop (Suc idx) rest last_day day_columns)"

text \<open>
  The header is the chosen row with every cell stripped; the columns' days start from
  the empty dictionary.
\<close>

definition header_day_columns :: "string list \<Rightarrow> (nat \<rightharpoonup> string)" where
  "header_day_columns row = day_columns_loop 0 (map strip row) None Map.empty"

section \<open>Semester inference\<close>

text \<open>
  The timetable maps a day to a map from a room to the room's sessions.  Python's
  dictionaries keep the order of insertion and \<^verbatim>\<open>infer_missing_semesters\<close> visits them in
  that order, so they are association lists.
\<close>

type_synonym semester_key = "string \<times> string \<times> string \<times> string"

type_synonym timetable = "(string \<times> (string \<times> ParsedSession list) list) list"

definition build_semester_key :: "ParsedSession \<Rightarrow> semester_key option" where
  "build_semester_key s =
     (if \<not> truthy (degree s) \<or> \<not> truthy (program s) \<or> \<not> truthy (section' s)
         \<or> \<not> truthy (session s)
      then None
      else (case (degree s, program s, section' s, session s) of
              (Some d, Some p, Some c, Some y) \<Rightarrow>
                Some (normalize_spacing d, normalize_spacing p, normalize_spacing c,
                      replace y '' '' [])
            | _ \<Rightarrow> None))"

text \<open>
  The body of the first pass on one session: the state is \<^verbatim>\<open>semester_map\<close> and
  \<^verbatim>\<open>conflicts\<close>.
\<close>

definition observe_session ::
  "(semester_key \<rightharpoonup> int) \<times> semester_key set \<Rightarrow> ParsedSession
   \<Rightarrow> (semester_key \<rightharpoonup> int) \<times> semester_key set" where
  "observe_session state s =
     (case state of
        (semester_map, conflicts) \<Rightarrow>
          (case build_semester_key s of
             None \<Rightarrow> state
           | Some key \<Rightarrow>
               (case semester s of
                  None \<Rightarrow> state
                | Some sem \<Rightarrow>
                    (case semester_map key of
                       None \<Rightarrow> (semester_map(key \<mapsto> sem), conflicts)
                     | Some known \<Rightarrow>
                         if known \<noteq> sem then (semester_map, insert key conflicts)
                         else (semester_map(key \<mapsto> sem), conflicts)))))"

definition first_pass :: "timetable \<Rightarrow> (semester_key \<rightharpoonup> int) \<times> semester_key set" where
  "first_pass tt =
     foldl (\<lambda>state (day, day_rooms).
              foldl (\<lambda>state (room, sessions). foldl observe_session state sessions)
                state day_rooms)
       (Map.empty, {}) tt"

text \<open>The body of the second pass on one session.\<close>

definition fill_session ::
  "(semester_key \<rightharpoonup> int) \<Rightarrow> semester_key set \<Rightarrow> ParsedSession \<Rightarrow> ParsedSession" where
  "fill_session semester_map conflicts s =
     (if semester s \<noteq> None then s
      else (case build_semester_key s of
              None \<Rightarrow> s
            | Some key \<Rightarrow>
                if key \<in> conflicts then s
                else (case semester_map key of
                        None \<Rightarrow> s
                      | Some inferred \<Rightarrow> s\<lparr>semester := Some inferred\<rparr>)))"

text \<open>
  The function updates the sessions in place and returns nothing; the model returns the
  timetable as it stands afterwards.  The second pass reads \<^verbatim>\<open>semester_map\<close> and
  \<^verbatim>\<open>conflicts\<close> as the first pass left them and, of a session, only fields it does not
  write, or the semester it writes once.
\<close>

definition infer_missing_semesters :: "timetable \<Rightarrow> timetable" where
  "infer_missing_semesters tt =
     (case first_pass tt of
        (semester_map, conflicts) \<Rightarrow>
          map (\<lambda>(day, day_rooms).
                 (day, map (\<lambda>(room, sessions).
                              (room, map (fill_session semester_map conflicts) sessions))
                         day_rooms))
            tt)"

text \<open>The sessions of a timetable, in the order the two passes visit them.\<close>

definition all_sessions :: "timetable \<Rightarrow> ParsedSession list" where
  "all_sessions tt = concat (map (\<lambda>(day, day_rooms). concat (map snd day_rooms)) tt)"

section \<open>The specification's wording of the noise lines\<close>

text \<open>
  \<^verbatim>\<open>is_noise\<close> as the specification words it: the trimmed lowercase text of the line is
  exactly \<^verbatim>\<open>swap\<close>, or starts with \<^verbatim>\<open>was:\<close>, or contains \<^verbatim>\<open>delete\<close>.  It is
  compared with \<open>keep_line\<close>, the condition of the code.
\<close>

definition is_noise :: "string \<Rightarrow> bool" where
  "is_noise line =
     (lower (strip line) = ''swap''
      \<or> startswith (lower (strip line)) ''was:''
      \<or> contains (lower (strip line)) ''delete'')"

section \<open>The specification's wording of the resolver\<close>





section \<open>Properties of the strings\<close>

lemma startswith_iff: "startswith s p \<longleftrightarrow> (\<exists>post. s = p @ post)"
  unfolding startswith_def
proof
  assume "take (length p) s = p"
  then have "s = p @ drop (length p) s" by (metis append_take_drop_id)
  then show "\<exists>post. s = p @ post" ..
next
  assume "\<exists>post. s = p @ post"
  then show "take (length p) s = p" by auto
qed

lemma contains_iff: "contains s sub \<longleftrightarrow> (\<exists>pre post. s = pre @ sub @ post)"
proof (induction s)
  case Nil
  then show ?case by auto
next
  case (Cons c cs)
  show ?case
  proof
    assume "contains (c # cs) sub"
    then consider "startswith (c # cs) sub" | "contains cs sub" by auto
    then show "\<exists>pre post. c # cs = pre @ sub @ post"
    proof cases
      case 1
      then obtain post where "c # cs = sub @ post" by (auto simp: startswith_iff)
      then have "c # cs = [] @ sub @ post" by simp
      then show ?thesis by blast
    next
      case 2
      then obtain pre post where "cs = pre @ sub @ post" using Cons.IH by blast
      then have "c # cs = (c # pre) @ sub @ post" by simp
      then show ?thesis by blast
    qed
  next
    assume "\<exists>pre post. c # cs = pre @ sub @ post"
    then obtain pre post where eq: "c # cs = pre @ sub @ post" by blast
    show "contains (c # cs) sub"
    proof (cases pre)
      case Nil
      with eq have "startswith (c # cs) sub" by (auto simp: startswith_iff)
      then show ?thesis by simp
    next
      case (Cons a pre')
      with eq have "cs = pre' @ sub @ post" by simp
      then have "contains cs sub" using Cons.IH by blast
      then show ?thesis by simp
    qed
  qed
qed

lemma endswith_iff: "endswith s p \<longleftrightarrow> (\<exists>pre. s = pre @ p)"
  unfolding endswith_def
proof
  assume a: "length p \<le> length s \<and> drop (length s - length p) s = p"
  then have "s = take (length s - length p) s @ p" by (metis append_take_drop_id)
  then show "\<exists>pre. s = pre @ p" ..
next
  assume "\<exists>pre. s = pre @ p"
  then show "length p \<le> length s \<and> drop (length s - length p) s = p" by auto
qed

section \<open>Truncation detection\<close>

text \<open>
  Claim C6, as stated, read on a line that holds an ellipsis character before its end:
  \<^verbatim>\<open>has_ellipsis\<close> is true of it, and the line ends neither with the ellipsis character nor
  with three dots.
\<close>

theorem has_ellipsis_inner_counterexample:
  "has_ellipsis (Some (''Foo'' @ ellipsis @ '' (Regular 1)''))
   \<and> \<not> endswith (''Foo'' @ ellipsis @ '' (Regular 1)'') ellipsis
   \<and> \<not> endswith (''Foo'' @ ellipsis @ '' (Regular 1)'') ''...''"
  by (simp add: has_ellipsis_def ellipsis_def startswith_def endswith_def)

text \<open>
  Claim C6, amended.  \<^verbatim>\<open>has_ellipsis\<close> is true exactly of the strings that hold the
  ellipsis character anywhere or end with three dots; it is false of \<^verbatim>\<open>None\<close> and of the
  empty string.  It is true of Foo followed by the ellipsis character and of Foo followed
  by three dots, and false of Foo.
\<close>

theorem has_ellipsis_characterised:
  "(has_ellipsis v \<longleftrightarrow>
      (\<exists>t. v = Some t \<and>
           ((\<exists>pre post. t = pre @ ellipsis @ post) \<or> (\<exists>pre. t = pre @ ''...''))))
   \<and> has_ellipsis (Some (''Foo'' @ ellipsis))
   \<and> has_ellipsis (Some ''Foo...'')
   \<and> \<not> has_ellipsis (Some ''Foo'')
   \<and> \<not> has_ellipsis (Some [])
   \<and> \<not> has_ellipsis None"
proof -
  have "has_ellipsis v \<longleftrightarrow>
      (\<exists>t. v = Some t \<and>
           ((\<exists>pre post. t = pre @ ellipsis @ post) \<or> (\<exists>pre. t = pre @ ''...'')))"
  proof (cases v)
    case None
    then show ?thesis by (simp add: has_ellipsis_def)
  next
    case (Some t)
    show ?thesis
    proof (cases "t = []")
      case True
      with Some show ?thesis by (simp add: has_ellipsis_def ellipsis_def)
    next
      case False
      with Some show ?thesis
        by (simp add: has_ellipsis_def contains_iff endswith_iff)
    qed
  qed
  moreover have "has_ellipsis (Some (''Foo'' @ ellipsis))"
    by (simp add: has_ellipsis_def ellipsis_def startswith_def)
  moreover have "has_ellipsis (Some ''Foo...'')"
    by (simp add: has_ellipsis_def endswith_def)
  moreover have "\<not> has_ellipsis (Some ''Foo'')"
    by (simp add: has_ellipsis_def ellipsis_def startswith_def endswith_def)
  moreover have "\<not> has_ellipsis (Some [])" "\<not> has_ellipsis None"
    by (simp_all add: has_ellipsis_def)
  ultimately show ?thesis by blast
qed

section \<open>Splitting a cell into sessions\<close>

lemma group_loop_concat:
  "group_loop ls cur acc = (S, c) \<Longrightarrow> concat S @ c = concat acc @ cur @ ls"
  by (induction ls arbitrary: cur acc) (auto split: if_splits)

lemma group_loop_length:
  "group_loop ls cur acc = (S, c)
   \<Longrightarrow> length S = length acc + length (filter (\<lambda>l. TIME_RE_search l \<noteq> None) ls)"
  by (induction ls arbitrary: cur acc) (auto split: if_splits)

lemma group_loop_current:
  "group_loop ls cur acc = (S, c)
   \<Longrightarrow> c \<noteq> [] \<longleftrightarrow> (if ls = [] then cur \<noteq> [] else TIME_RE_search (last ls) = None)"
proof (induction ls arbitrary: cur acc)
  case Nil
  then show ?case by simp
next
  case (Cons l rest)
  show ?case
  proof (cases "TIME_RE_search l = None")
    case True
    with Cons.prems have "group_loop rest (cur @ [l]) acc = (S, c)" by simp
    from Cons.IH [OF this] True show ?thesis by simp
  next
    case False
    with Cons.prems have "group_loop rest [] (acc @ [cur @ [l]]) = (S, c)" by simp
    from Cons.IH [OF this] False show ?thesis by auto
  qed
qed

lemma group_loop_current_plain:
  "group_loop ls cur acc = (S, c) \<Longrightarrow> \<forall>x \<in> set cur. TIME_RE_search x = None
   \<Longrightarrow> \<forall>x \<in> set c. TIME_RE_search x = None"
proof (induction ls arbitrary: cur acc)
  case Nil
  then show ?case by simp
next
  case (Cons l rest)
  show ?case
  proof (cases "TIME_RE_search l = None")
    case True
    with Cons.prems have "group_loop rest (cur @ [l]) acc = (S, c)"
      "\<forall>x \<in> set (cur @ [l]). TIME_RE_search x = None" by simp_all
    from Cons.IH [OF this] show ?thesis .
  next
    case False
    with Cons.prems have "group_loop rest [] (acc @ [cur @ [l]]) = (S, c)" by simp
    from Cons.IH [OF this] show ?thesis by simp
  qed
qed

lemma group_loop_closed:
  "group_loop ls cur acc = (S, c) \<Longrightarrow> \<forall>x \<in> set cur. TIME_RE_search x = None
   \<Longrightarrow> g \<in> set S
   \<Longrightarrow> g \<in> set acc \<or>
       (g \<noteq> [] \<and> TIME_RE_search (last g) \<noteq> None \<and> (\<forall>x \<in> set (butlast g). TIME_RE_search x = None))"
proof (induction ls arbitrary: cur acc)
  case Nil
  then show ?case by simp
next
  case (Cons l rest)
  show ?case
  proof (cases "TIME_RE_search l = None")
    case True
    with Cons.prems have "group_loop rest (cur @ [l]) acc = (S, c)"
      "\<forall>x \<in> set (cur @ [l]). TIME_RE_search x = None" by simp_all
    from Cons.IH [OF this Cons.prems(3)] show ?thesis .
  next
    case False
    with Cons.prems have "group_loop rest [] (acc @ [cur @ [l]]) = (S, c)" by simp
    from Cons.IH [OF this _ Cons.prems(3)]
    have "g \<in> set acc \<or> g = cur @ [l] \<or>
       (g \<noteq> [] \<and> TIME_RE_search (last g) \<noteq> None \<and> (\<forall>x \<in> set (butlast g). TIME_RE_search x = None))"
      by auto
    moreover have "cur @ [l] \<noteq> [] \<and> TIME_RE_search (last (cur @ [l])) \<noteq> None
        \<and> (\<forall>x \<in> set (butlast (cur @ [l])). TIME_RE_search x = None)"
      using False Cons.prems(2) by simp
    ultimately show ?thesis by blast
  qed
qed

lemma group_lines_concat: "concat (group_lines ls) = ls"
proof -
  obtain S c where g: "group_loop ls [] [] = (S, c)" by (cases "group_loop ls [] []")
  from group_loop_concat [OF g] show ?thesis by (auto simp: group_lines_def g)
qed

lemma group_lines_length:
  "length (group_lines ls) =
     length (filter (\<lambda>l. TIME_RE_search l \<noteq> None) ls)
     + (if ls \<noteq> [] \<and> TIME_RE_search (last ls) = None then 1 else 0)"
proof -
  obtain S c where g: "group_loop ls [] [] = (S, c)" by (cases "group_loop ls [] []")
  from group_loop_length [OF g] group_loop_current [OF g] show ?thesis
    by (auto simp: group_lines_def g)
qed

lemma group_lines_groups:
  assumes "g \<in> set (group_lines ls)"
  shows "g \<noteq> [] \<and> (\<forall>x \<in> set (butlast g). TIME_RE_search x = None)"
proof -
  obtain S c where gl: "group_loop ls [] [] = (S, c)" by (cases "group_loop ls [] []")
  have closed: "h \<noteq> [] \<and> (\<forall>x \<in> set (butlast h). TIME_RE_search x = None)" if "h \<in> set S" for h
    using group_loop_closed [OF gl _ that] by simp
  have plain: "\<forall>x \<in> set c. TIME_RE_search x = None"
    using group_loop_current_plain [OF gl] by simp
  from assms have "g \<in> set S \<or> (g = c \<and> c \<noteq> [])"
    by (auto simp: group_lines_def gl split: if_splits)
  then show ?thesis
  proof
    assume "g \<in> set S"
    then show ?thesis by (rule closed)
  next
    assume "g = c \<and> c \<noteq> []"
    with plain show ?thesis by (auto dest: in_set_butlastD)
  qed
qed

lemma group_lines_closed:
  assumes "g \<in> set (butlast (group_lines ls))"
  shows "TIME_RE_search (last g) \<noteq> None"
proof -
  obtain S c where gl: "group_loop ls [] [] = (S, c)" by (cases "group_loop ls [] []")
  from assms have "g \<in> set S"
    by (auto simp: group_lines_def gl butlast_append split: if_splits dest: in_set_butlastD)
  from group_loop_closed [OF gl _ this] show ?thesis by simp
qed

lemma cell_lines_empty: "cell_lines [] = []"
  by (simp add: cell_lines_def keep_line_def strip_def)

lemma group_lines_Nil: "group_lines [] = []"
  by (simp add: group_lines_def)

lemma parse_cell_groups:
  "parse_cell cell refs rt kt =
     map (\<lambda>g. parse_session g refs rt kt) (group_lines (cell_lines (strip cell)))"
  by (simp add: parse_cell_def Let_def cell_lines_empty group_lines_Nil)

text \<open>
  The sessions of a cell, from the lines that the filter of the code keeps.  With \<open>lines\<close>
  these lines and \<open>groups\<close> the groups the splitter makes of them: the sessions of the
  cell are the groups, parsed one by one; there is none when no line is kept; the groups
  are the lines in order, cut into pieces; no group is empty and only the last line of a
  group can have a time range; every group but the last does end with a time range; so
  there are as many sessions as kept lines with a time range, and one more when the last
  kept line has none.
\<close>

lemma kept_lines_splitting:
  "(let lines = cell_lines (strip cell);
        groups = group_lines lines
    in parse_cell cell refs rt kt = map (\<lambda>g. parse_session g refs rt kt) groups
       \<and> (lines = [] \<longrightarrow> parse_cell cell refs rt kt = [])
       \<and> concat groups = lines
       \<and> (\<forall>g \<in> set groups. g \<noteq> [] \<and> (\<forall>l \<in> set (butlast g). TIME_RE_search l = None))
       \<and> (\<forall>g \<in> set (butlast groups). TIME_RE_search (last g) \<noteq> None)
       \<and> length (parse_cell cell refs rt kt) =
           length (filter (\<lambda>l. TIME_RE_search l \<noteq> None) lines)
           + (if lines \<noteq> [] \<and> TIME_RE_search (last lines) = None then 1 else 0))"
  unfolding Let_def
  by (intro conjI ballI impI)
    (simp_all add: parse_cell_groups group_lines_Nil group_lines_concat group_lines_groups
      group_lines_closed group_lines_length)

lemma kept_lines_splitting_example:
  "cell_lines (strip (join [CHR 0x0A] [''Math # M1'', ''Dr. A (09:00 - 10:30)'', ''Physics # P1'']))
     = [''Math # M1'', ''Dr. A (09:00 - 10:30)'', ''Physics # P1'']
   \<and> TIME_RE_search ''Math # M1'' = None
   \<and> TIME_RE_search ''Dr. A (09:00 - 10:30)'' = Some (''09:00'', ''10:30'')
   \<and> TIME_RE_search ''Physics # P1'' = None
   \<and> length (parse_cell
         (join [CHR 0x0A] [''Math # M1'', ''Dr. A (09:00 - 10:30)'', ''Physics # P1''])
         [] True False) = 2"
proof -
  have l: "cell_lines (strip (join [CHR 0x0A] [''Math # M1'', ''Dr. A (09:00 - 10:30)'', ''Physics # P1'']))
     = [''Math # M1'', ''Dr. A (09:00 - 10:30)'', ''Physics # P1'']"
    by code_simp
  have t: "TIME_RE_search ''Math # M1'' = None"
    "TIME_RE_search ''Dr. A (09:00 - 10:30)'' = Some (''09:00'', ''10:30'')"
    "TIME_RE_search ''Physics # P1'' = None"
    by code_simp+
  have f: "filter (\<lambda>l. TIME_RE_search l \<noteq> None)
              [''Math # M1'', ''Dr. A (09:00 - 10:30)'', ''Physics # P1'']
            = [''Dr. A (09:00 - 10:30)'']"
    by (simp add: t del: TIME_RE_search.simps)
  from kept_lines_splitting
    [of "join [CHR 0x0A] [''Math # M1'', ''Dr. A (09:00 - 10:30)'', ''Physics # P1'']" "[]" True False]
  have "length (parse_cell
         (join [CHR 0x0A] [''Math # M1'', ''Dr. A (09:00 - 10:30)'', ''Physics # P1''])
         [] True False)
       = length (filter (\<lambda>l. TIME_RE_search l \<noteq> None)
                  [''Math # M1'', ''Dr. A (09:00 - 10:30)'', ''Physics # P1''])
         + (if [''Math # M1'', ''Dr. A (09:00 - 10:30)'', ''Physics # P1''] \<noteq> []
               \<and> TIME_RE_search (last [''Math # M1'', ''Dr. A (09:00 - 10:30)'', ''Physics # P1''])
                   = None
            then 1 else 0)"
    unfolding Let_def l by blast
  then have "length (parse_cell
         (join [CHR 0x0A] [''Math # M1'', ''Dr. A (09:00 - 10:30)'', ''Physics # P1''])
         [] True False) = 2"
    unfolding f by (simp add: t del: TIME_RE_search.simps)
  with l t show ?thesis by (simp del: TIME_RE_search.simps join.simps)
qed

text \<open>
  Claim C5, as the code has it.  The cell made of the line \<^verbatim>\<open>swap\<close> has no line left
  once the blank lines and the noise lines of the specification are taken out, and gives
  one session.  The cell of a course line, a teacher line with a time range and the line
  \<^verbatim>\<open>swap\<close> has two lines left, one time range, on the last of them, and gives two
  sessions: the filter of the code keeps the line \<^verbatim>\<open>swap\<close>, which forms a group.
\<close>

theorem swap_cell_sessions:
  "filter (\<lambda>l. strip l \<noteq> [] \<and> \<not> is_noise l) (split_sep CHR 0x0A (strip ''swap'')) = []
   \<and> cell_lines (strip ''swap'') = [''swap'']
   \<and> length (parse_cell ''swap'' [] True False) = 1
   \<and> filter (\<lambda>l. strip l \<noteq> [] \<and> \<not> is_noise l)
        (split_sep CHR 0x0A
           (strip (join [CHR 0x0A] [''Math # M1'', ''Dr. A (09:00 - 10:30)'', ''swap''])))
      = [''Math # M1'', ''Dr. A (09:00 - 10:30)'']
   \<and> TIME_RE_search ''Math # M1'' = None
   \<and> TIME_RE_search ''Dr. A (09:00 - 10:30)'' = Some (''09:00'', ''10:30'')
   \<and> cell_lines (strip (join [CHR 0x0A] [''Math # M1'', ''Dr. A (09:00 - 10:30)'', ''swap'']))
      = [''Math # M1'', ''Dr. A (09:00 - 10:30)'', ''swap'']
   \<and> length (parse_cell
         (join [CHR 0x0A] [''Math # M1'', ''Dr. A (09:00 - 10:30)'', ''swap'']) [] True False) = 2"
proof -
  have "filter (\<lambda>l. strip l \<noteq> [] \<and> \<not> is_noise l) (split_sep CHR 0x0A (strip ''swap'')) = []"
    by code_simp
  moreover have a: "cell_lines (strip ''swap'') = [''swap'']" by code_simp
  moreover have "group_lines [''swap''] = [[''swap'']]" by code_simp
  then have "length (parse_cell ''swap'' [] True False) = 1"
    unfolding parse_cell_groups a by simp
  moreover have "filter (\<lambda>l. strip l \<noteq> [] \<and> \<not> is_noise l)
        (split_sep CHR 0x0A
           (strip (join [CHR 0x0A] [''Math # M1'', ''Dr. A (09:00 - 10:30)'', ''swap''])))
      = [''Math # M1'', ''Dr. A (09:00 - 10:30)'']"
    by code_simp
  moreover have "TIME_RE_search ''Math # M1'' = None" by code_simp
  moreover have "TIME_RE_search ''Dr. A (09:00 - 10:30)'' = Some (''09:00'', ''10:30'')"
    by code_simp
  moreover have b: "cell_lines (strip (join [CHR 0x0A]
        [''Math # M1'', ''Dr. A (09:00 - 10:30)'', ''swap'']))
      = [''Math # M1'', ''Dr. A (09:00 - 10:30)'', ''swap'']"
    by code_simp
  moreover have "group_lines [''Math # M1'', ''Dr. A (09:00 - 10:30)'', ''swap'']
      = [[''Math # M1'', ''Dr. A (09:00 - 10:30)''], [''swap'']]"
    by code_simp
  then have "length (parse_cell
         (join [CHR 0x0A] [''Math # M1'', ''Dr. A (09:00 - 10:30)'', ''swap'']) [] True False) = 2"
    unfolding parse_cell_groups b by simp
  ultimately show ?thesis by blast
qed

section \<open>Fields of a parsed session\<close>

lemma teacher_fields_times:
  "teacher_fields t = (name, start, end') \<Longrightarrow> (start = None) = (end' = None)"
  by (auto simp: teacher_fields_def Let_def split: option.splits if_splits prod.splits)

lemma parse_session_teacher:
  "\<exists>t. teacher_fields t =
     (teacher_name (parse_session ls refs rt kt), start_time (parse_session ls refs rt kt),
      end_time (parse_session ls refs rt kt))"
proof -
  obtain a b c where 1: "assign_lines (filter (\<lambda>line. line \<noteq> [])
      (filter (\<lambda>line. lower (strip line) \<noteq> ''practical'')
        (case teacher_loop 0 (filter (\<lambda>line. line \<noteq> []) (map strip ls)) None of
           None \<Rightarrow> filter (\<lambda>line. line \<noteq> []) (map strip ls)
         | Some (teacher_index, teacher_line) \<Rightarrow>
             take teacher_index (filter (\<lambda>line. line \<noteq> []) (map strip ls))
             @ drop (Suc teacher_index) (filter (\<lambda>line. line \<noteq> []) (map strip ls))))) = (a, b, c)"
    by (rule prod_cases3)
  obtain d e where 2: "split_course_line b = (d, e)" by (rule prod.exhaust)
  obtain f g h i j where 3: "parse_program_fields
      (case c of
         None \<Rightarrow> None
       | Some rpl \<Rightarrow>
           if rt \<and> has_ellipsis c \<and> rpl \<noteq> [] \<and> \<not> kt
           then Some (resolve_program_line rpl refs)
           else Some rpl) = (f, g, h, i, j)"
    by (rule prod_cases5)
  obtain k l m where 4: "teacher_fields
      (map_option snd (teacher_loop 0 (filter (\<lambda>line. line \<noteq> []) (map strip ls)) None)) = (k, l, m)"
    by (rule prod_cases3)
  show ?thesis
    unfolding parse_session_def Let_def 1 2 3 4 prod.case
    by (rule exI [where x = "map_option snd
          (teacher_loop 0 (filter (\<lambda>line. line \<noteq> []) (map strip ls)) None)"])
      (simp add: 4)
qed

lemma parse_session_program:
  "parse_program_fields (program_line (parse_session ls refs rt kt)) =
     (degree (parse_session ls refs rt kt), program (parse_session ls refs rt kt),
      section' (parse_session ls refs rt kt), session (parse_session ls refs rt kt),
      semester (parse_session ls refs rt kt))"
proof -
  obtain a b c where 1: "assign_lines (filter (\<lambda>line. line \<noteq> [])
      (filter (\<lambda>line. lower (strip line) \<noteq> ''practical'')
        (case teacher_loop 0 (filter (\<lambda>line. line \<noteq> []) (map strip ls)) None of
           None \<Rightarrow> filter (\<lambda>line. line \<noteq> []) (map strip ls)
         | Some (teacher_index, teacher_line) \<Rightarrow>
             take teacher_index (filter (\<lambda>line. line \<noteq> []) (map strip ls))
             @ drop (Suc teacher_index) (filter (\<lambda>line. line \<noteq> []) (map strip ls))))) = (a, b, c)"
    by (rule prod_cases3)
  obtain d e where 2: "split_course_line b = (d, e)" by (rule prod.exhaust)
  obtain f g h i j where 3: "parse_program_fields
      (case c of
         None \<Rightarrow> None
       | Some rpl \<Rightarrow>
           if rt \<and> has_ellipsis c \<and> rpl \<noteq> [] \<and> \<not> kt
           then Some (resolve_program_line rpl refs)
           else Some rpl) = (f, g, h, i, j)"
    by (rule prod_cases5)
  obtain k l m where 4: "teacher_fields
      (map_option snd (teacher_loop 0 (filter (\<lambda>line. line \<noteq> []) (map strip ls)) None)) = (k, l, m)"
    by (rule prod_cases3)
  show ?thesis
    unfolding parse_session_def Let_def 1 2 3 4 prod.case
    by (simp add: 3)
qed

lemma parse_program_fields_degree:
  "parse_program_fields v = (None, p, c, y, m) \<Longrightarrow> p = None \<and> c = None \<and> y = None \<and> m = None"
  by (auto simp: parse_program_fields_def Let_def split: option.splits if_splits prod.splits)

lemma parse_program_fields_no_degree:
  "DEGREE_RE_match (cleaned pl) = None
   \<Longrightarrow> parse_program_fields (Some pl) = (None, None, None, None, None)"
  by (simp add: parse_program_fields_def)

text \<open>
  Claim C7.  A program line whose normalised text does not start with a degree token
  gives five empty fields.  In every session the parser makes, the five fields are those
  of the session's program line; they are all empty when that line is missing or has no
  degree token at its start, and whenever the degree is empty.
\<close>

theorem degree_gating:
  "(DEGREE_RE_match (cleaned pl) = None
      \<longrightarrow> parse_program_fields (Some pl) = (None, None, None, None, None))
   \<and> (let s = parse_session ls refs rt kt
      in parse_program_fields (program_line s)
           = (degree s, program s, section' s, session s, semester s)
         \<and> ((case program_line s of
                None \<Rightarrow> True
              | Some l \<Rightarrow> DEGREE_RE_match (cleaned l) = None)
             \<longrightarrow> degree s = None \<and> program s = None \<and> section' s = None
                 \<and> session s = None \<and> semester s = None)
         \<and> (degree s = None
             \<longrightarrow> program s = None \<and> section' s = None \<and> session s = None \<and> semester s = None))"
proof -
  let ?s = "parse_session ls refs rt kt"
  have f: "parse_program_fields (program_line ?s)
           = (degree ?s, program ?s, section' ?s, session ?s, semester ?s)"
    by (rule parse_session_program)
  have a: "degree ?s = None \<and> program ?s = None \<and> section' ?s = None
           \<and> session ?s = None \<and> semester ?s = None"
    if "case program_line ?s of None \<Rightarrow> True | Some l \<Rightarrow> DEGREE_RE_match (cleaned l) = None"
  proof (cases "program_line ?s")
    case None
    then have "parse_program_fields (program_line ?s) = (None, None, None, None, None)"
      by (simp add: parse_program_fields_def)
    with f show ?thesis by simp
  next
    case (Some l)
    with that have "parse_program_fields (program_line ?s) = (None, None, None, None, None)"
      by (simp add: parse_program_fields_no_degree)
    with f show ?thesis by simp
  qed
  have b: "program ?s = None \<and> section' ?s = None \<and> session ?s = None \<and> semester ?s = None"
    if "degree ?s = None"
    using parse_program_fields_degree [of "program_line ?s" "program ?s" "section' ?s"
        "session ?s" "semester ?s"] f that by simp
  show ?thesis
    unfolding Let_def using f a b parse_program_fields_no_degree by blast
qed

theorem degree_gating_witness:
  "DEGREE_RE_match (cleaned ''Computer Science (Regular 1) 2021-2025 Semester# 3'') = None
   \<and> parse_program_fields (Some ''Computer Science (Regular 1) 2021-2025 Semester# 3'')
       = (None, None, None, None, None)"
proof -
  have "DEGREE_RE_match (cleaned ''Computer Science (Regular 1) 2021-2025 Semester# 3'') = None"
    by code_simp
  with degree_gating [of "''Computer Science (Regular 1) 2021-2025 Semester# 3''"]
  show ?thesis by blast
qed

text \<open>
  Claim C8.  In every session the parser makes, from a group of lines or from a cell, the
  start time is empty exactly when the end time is: the two come from one match of the
  time-range pattern on the teacher line.
\<close>

theorem time_copresence:
  "(start_time (parse_session ls refs rt kt) = None
      \<longleftrightarrow> end_time (parse_session ls refs rt kt) = None)
   \<and> (\<forall>s \<in> set (parse_cell cell refs rt kt). start_time s = None \<longleftrightarrow> end_time s = None)"
proof -
  have one: "start_time (parse_session g refs rt kt) = None
      \<longleftrightarrow> end_time (parse_session g refs rt kt) = None" for g
    using parse_session_teacher [of g refs rt kt] teacher_fields_times by blast
  have "start_time s = None \<longleftrightarrow> end_time s = None" if "s \<in> set (parse_cell cell refs rt kt)" for s
  proof -
    from that obtain g where "s = parse_session g refs rt kt"
      by (auto simp: parse_cell_groups)
    with one show ?thesis by simp
  qed
  with one show ?thesis by blast
qed

theorem time_copresence_witness:
  "(\<exists>s. s \<in> set (parse_cell ''Dr. Smith (09:00 - 10:30)'' [] True False)
        \<and> start_time s = Some ''09:00'' \<and> end_time s = Some ''10:30'')
   \<and> (\<exists>s. s \<in> set (parse_cell ''Dr. Smith'' [] True False)
        \<and> start_time s = None \<and> end_time s = None)"
proof -
  have a: "map start_time (parse_cell ''Dr. Smith (09:00 - 10:30)'' [] True False)
           = [Some ''09:00'']"
    by code_simp
  have b: "map start_time (parse_cell ''Dr. Smith'' [] True False) = [None]"
    by code_simp
  from a obtain s where s: "parse_cell ''Dr. Smith (09:00 - 10:30)'' [] True False = [s]"
    "start_time s = Some ''09:00''" by auto
  from b obtain u where u: "parse_cell ''Dr. Smith'' [] True False = [u]"
    "start_time u = None" by auto
  from time_copresence [of _ "[]" True False "''Dr. Smith (09:00 - 10:30)''"] s
  have "end_time s \<noteq> None" by auto
  have es: "map end_time (parse_cell ''Dr. Smith (09:00 - 10:30)'' [] True False)
           = [Some ''10:30'']"
    by code_simp
  from time_copresence [of _ "[]" True False "''Dr. Smith''"] u
  have eu: "end_time u = None" by auto
  from s es have "end_time s = Some ''10:30''" by simp
  with s u eu show ?thesis by auto
qed

section \<open>The line filter of a cell\<close>

lemma strip_take: "\<exists>n. strip s = take n (dropWhile isspace s)"
proof -
  have "rev (dropWhile P (rev t)) = take (length t - length (takeWhile P (rev t))) t" for P
    and t :: string
    by (simp add: dropWhile_eq_drop rev_drop)
  then show ?thesis unfolding strip_def by blast
qed

lemma strip_hd: "strip s \<noteq> [] \<Longrightarrow> \<not> isspace (hd (strip s))"
proof -
  assume ne: "strip s \<noteq> []"
  obtain n where n: "strip s = take n (dropWhile isspace s)" using strip_take by blast
  with ne have "dropWhile isspace s \<noteq> []" "0 < n" by auto
  then have "hd (strip s) = hd (dropWhile isspace s)" using n by (simp add: hd_take)
  moreover have "\<not> isspace (hd (dropWhile isspace s))"
    using \<open>dropWhile isspace s \<noteq> []\<close> by (rule hd_dropWhile)
  ultimately show ?thesis by simp
qed

lemma lower_char_space: "lower_char c = CHR '' '' \<Longrightarrow> c = CHR '' ''"
  by (auto simp: lower_char_def split: if_splits)

lemma lower_strip_no_space: "lower (strip s) \<noteq> CHR '' '' # t"
proof
  assume a: "lower (strip s) = CHR '' '' # t"
  then have ne: "strip s \<noteq> []" by (auto simp: lower_def)
  with a have "lower_char (hd (strip s)) = CHR '' ''"
    by (cases "strip s") (auto simp: lower_def)
  then have "hd (strip s) = CHR '' ''" by (rule lower_char_space)
  with strip_hd [OF ne] show False by (simp add: isspace_def)
qed

text \<open>
  Claim C1, as the code has it.  The comparison of the filter with \<^verbatim>\<open>" swap"\<close> never
  holds, the text compared being stripped: a line is kept exactly when it is not blank,
  does not start with \<^verbatim>\<open>was:\<close> and does not contain \<^verbatim>\<open>delete\<close>.  The line
  \<^verbatim>\<open>swap\<close>, whose trimmed lowercase text is \<^verbatim>\<open>swap\<close> and which is a noise
  line of the specification, is kept, and the cell made of it gives one session, with
  \<^verbatim>\<open>swap\<close> as its course title.
\<close>

theorem swap_line_kept:
  "(keep_line line \<longleftrightarrow>
      strip line \<noteq> []
      \<and> \<not> startswith (lower (strip line)) ''was:''
      \<and> \<not> contains (lower (strip line)) ''delete'')
   \<and> lower (strip ''swap'') = ''swap''
   \<and> is_noise ''swap''
   \<and> keep_line ''swap''
   \<and> cell_lines ''swap'' = [''swap'']
   \<and> map course_title (parse_cell ''swap'' [] True False) = [Some ''swap'']
   \<and> map raw_lines (parse_cell ''swap'' [] True False) = [[''swap'']]"
proof -
  have "keep_line line \<longleftrightarrow>
      strip line \<noteq> []
      \<and> \<not> startswith (lower (strip line)) ''was:''
      \<and> \<not> contains (lower (strip line)) ''delete''"
    unfolding keep_line_def using lower_strip_no_space [of line "''swap''"] by blast
  moreover have "lower (strip ''swap'') = ''swap''" by code_simp
  moreover have "is_noise ''swap''" by code_simp
  moreover have "keep_line ''swap''" by code_simp
  moreover have "cell_lines ''swap'' = [''swap'']" by code_simp
  moreover have "map course_title (parse_cell ''swap'' [] True False) = [Some ''swap'']"
    by code_simp
  moreover have "map raw_lines (parse_cell ''swap'' [] True False) = [[''swap'']]"
    by code_simp
  ultimately show ?thesis by blast
qed

section \<open>A cell with a program line\<close>

lemma parse_session_untruncated:
  assumes "\<not> program_truncated (parse_session ls [] False False)"
  shows "parse_session ls refs rt kt = parse_session ls [] False False"
proof -
  obtain a b c where 1: "assign_lines (filter (\<lambda>line. line \<noteq> [])
      (filter (\<lambda>line. lower (strip line) \<noteq> ''practical'')
        (case teacher_loop 0 (filter (\<lambda>line. line \<noteq> []) (map strip ls)) None of
           None \<Rightarrow> filter (\<lambda>line. line \<noteq> []) (map strip ls)
         | Some (teacher_index, teacher_line) \<Rightarrow>
             take teacher_index (filter (\<lambda>line. line \<noteq> []) (map strip ls))
             @ drop (Suc teacher_index) (filter (\<lambda>line. line \<noteq> []) (map strip ls))))) = (a, b, c)"
    by (rule prod_cases3)
  obtain d e where 2: "split_course_line b = (d, e)" by (rule prod.exhaust)
  from assms have h: "\<not> has_ellipsis c"
    unfolding parse_session_def Let_def 1 2 prod.case by (simp split: prod.splits)
  have "(case c of
           None \<Rightarrow> None
         | Some rpl \<Rightarrow>
             if x \<and> has_ellipsis c \<and> rpl \<noteq> [] \<and> \<not> y
             then Some (resolve_program_line rpl r)
             else Some rpl) = c" for x y r
    using h by (cases c) auto
  then show ?thesis
    unfolding parse_session_def Let_def 1 2 prod.case by simp
qed

text \<open>
  Claim C2, as the code has it.  The cell of scenario B gives one session, whatever the
  reference programs and the two flags.  Nine of its ten fields are the ones of the
  claim; the program is \<^verbatim>\<open>Computer Science (\<close>, with the opening parenthesis that
  stands before the section in the program line, and not \<^verbatim>\<open>Computer Science\<close>.
\<close>

theorem scenario_B_program:
  "\<exists>s. parse_cell
          (join [CHR 0x0A]
             [''BS Computer Science # CS101'',
              ''BS Computer Science (Regular 1) 2021-2025 Semester# 3'',
              ''Dr. Smith (09:00 - 10:30)''])
          refs rt kt = [s]
       \<and> course_title s = Some ''BS Computer Science''
       \<and> course_code s = Some ''CS101''
       \<and> degree s = Some ''BS''
       \<and> program s = Some ''Computer Science (''
       \<and> program s \<noteq> Some ''Computer Science''
       \<and> section' s = Some ''Regular 1''
       \<and> session s = Some ''2021-2025''
       \<and> semester s = Some 3
       \<and> teacher_name s = Some ''Dr. Smith''
       \<and> start_time s = Some ''09:00''
       \<and> end_time s = Some ''10:30''"
proof -
  let ?ls = "[''BS Computer Science # CS101'',
              ''BS Computer Science (Regular 1) 2021-2025 Semester# 3'',
              ''Dr. Smith (09:00 - 10:30)'']"
  let ?s = "parse_session ?ls [] False False"
  have g: "group_lines (cell_lines (strip (join [CHR 0x0A] ?ls))) = [?ls]"
    by code_simp
  have e: "(let s = ?s
            in (course_title s, course_code s, degree s, program s, section' s, session s,
                semester s, teacher_name s, start_time s, end_time s, program_truncated s))
           = (Some ''BS Computer Science'', Some ''CS101'', Some ''BS'',
              Some ''Computer Science ('', Some ''Regular 1'', Some ''2021-2025'', Some 3,
              Some ''Dr. Smith'', Some ''09:00'', Some ''10:30'', False)"
    by code_simp
  then have "\<not> program_truncated ?s" by (simp add: Let_def)
  then have "parse_session ?ls refs rt kt = ?s" by (rule parse_session_untruncated)
  then have c: "parse_cell (join [CHR 0x0A] ?ls) refs rt kt = [?s]"
    unfolding parse_cell_groups g by simp
  from e have "course_title ?s = Some ''BS Computer Science''"
    "course_code ?s = Some ''CS101''" "degree ?s = Some ''BS''"
    "program ?s = Some ''Computer Science (''" "section' ?s = Some ''Regular 1''"
    "session ?s = Some ''2021-2025''" "semester ?s = Some 3"
    "teacher_name ?s = Some ''Dr. Smith''" "start_time ?s = Some ''09:00''"
    "end_time ?s = Some ''10:30''"
    by (simp_all add: Let_def)
  then show ?thesis using c by simp
qed

section \<open>The two passes of the semester inference\<close>

lemma foldl_rooms:
  "foldl (\<lambda>state (room, sessions). foldl observe_session state sessions) st rooms
   = foldl observe_session st (concat (map snd rooms))"
  by (induction rooms arbitrary: st) (simp_all add: split_beta)

lemma foldl_days:
  "foldl (\<lambda>state (day, day_rooms).
            foldl (\<lambda>state (room, sessions). foldl observe_session state sessions)
              state day_rooms) st tt
   = foldl observe_session st (all_sessions tt)"
  by (induction tt arbitrary: st) (simp_all add: all_sessions_def split_beta foldl_rooms)

lemma first_pass_all: "first_pass tt = foldl observe_session (Map.empty, {}) (all_sessions tt)"
  by (simp add: first_pass_def foldl_days)

lemma observe_mono: "fst st k = Some v \<Longrightarrow> fst (observe_session st s) k = Some v"
  by (cases st) (auto simp: observe_session_def split: option.splits)

lemma observe_new:
  "fst (observe_session st s) k = Some v
   \<Longrightarrow> fst st k = Some v \<or> (build_semester_key s = Some k \<and> semester s = Some v)"
  by (cases st) (auto simp: observe_session_def split: option.splits if_splits)

lemma observe_conflicts_mono: "k \<in> snd st \<Longrightarrow> k \<in> snd (observe_session st s)"
  by (cases st) (auto simp: observe_session_def split: option.splits)

lemma observe_seen:
  "build_semester_key s = Some k \<Longrightarrow> semester s = Some v
   \<Longrightarrow> fst (observe_session st s) k = Some v \<or> k \<in> snd (observe_session st s)"
  by (cases st) (auto simp: observe_session_def split: option.splits)

lemma observe_conflict:
  "k \<in> snd (observe_session st s)
   \<Longrightarrow> k \<in> snd st
       \<or> (build_semester_key s = Some k
          \<and> (\<exists>v w. semester s = Some v \<and> fst (observe_session st s) k = Some w \<and> w \<noteq> v))"
  by (cases st) (auto simp: observe_session_def split: option.splits if_splits)

lemma fold_mono: "fst st k = Some v \<Longrightarrow> fst (foldl observe_session st ss) k = Some v"
  by (induction ss arbitrary: st) (simp_all add: observe_mono)

lemma fold_conflicts_mono: "k \<in> snd st \<Longrightarrow> k \<in> snd (foldl observe_session st ss)"
  by (induction ss arbitrary: st) (simp_all add: observe_conflicts_mono)

lemma fold_new:
  "fst (foldl observe_session st ss) k = Some v
   \<Longrightarrow> fst st k = Some v \<or> (\<exists>s \<in> set ss. build_semester_key s = Some k \<and> semester s = Some v)"
proof (induction ss arbitrary: st)
  case Nil
  then show ?case by simp
next
  case (Cons s ss)
  from Cons.prems have "fst (foldl observe_session (observe_session st s) ss) k = Some v"
    by simp
  from Cons.IH [OF this] observe_new [of st s k v] show ?case by auto
qed

lemma fold_seen:
  "s \<in> set ss \<Longrightarrow> build_semester_key s = Some k \<Longrightarrow> semester s = Some v
   \<Longrightarrow> fst (foldl observe_session st ss) k = Some v \<or> k \<in> snd (foldl observe_session st ss)"
proof (induction ss arbitrary: st)
  case Nil
  then show ?case by simp
next
  case (Cons a ss)
  show ?case
  proof (cases "s = a")
    case True
    with Cons.prems
    have "fst (observe_session st a) k = Some v \<or> k \<in> snd (observe_session st a)"
      by (simp add: observe_seen)
    then show ?thesis
      using fold_mono [of "observe_session st a" k v ss]
        fold_conflicts_mono [of k "observe_session st a" ss] by auto
  next
    case False
    with Cons.prems have "s \<in> set ss" by simp
    from Cons.IH [OF this Cons.prems(2,3)] show ?thesis by simp
  qed
qed

lemma fold_conflict:
  "k \<in> snd (foldl observe_session st ss)
   \<Longrightarrow> k \<in> snd st
       \<or> (\<exists>s \<in> set ss. build_semester_key s = Some k
             \<and> (\<exists>v w. semester s = Some v \<and> fst (foldl observe_session st ss) k = Some w
                       \<and> w \<noteq> v))"
proof (induction ss arbitrary: st)
  case Nil
  then show ?case by simp
next
  case (Cons a ss)
  from Cons.prems have "k \<in> snd (foldl observe_session (observe_session st a) ss)" by simp
  from Cons.IH [OF this]
  consider "k \<in> snd (observe_session st a)"
    | "\<exists>s \<in> set ss. build_semester_key s = Some k
         \<and> (\<exists>v w. semester s = Some v
                \<and> fst (foldl observe_session (observe_session st a) ss) k = Some w \<and> w \<noteq> v)"
    by blast
  then show ?case
  proof cases
    case 1
    from observe_conflict [OF this]
    consider "k \<in> snd st"
      | v w where "build_semester_key a = Some k" "semester a = Some v"
          "fst (observe_session st a) k = Some w" "w \<noteq> v"
      by blast
    then show ?thesis
    proof cases
      case 1
      then show ?thesis by simp
    next
      case 2
      from fold_mono [OF 2(3), of ss] 2 show ?thesis by auto
    qed
  next
    case 2
    then show ?thesis by auto
  qed
qed

lemma first_pass_agreed:
  "fst (first_pass tt) k = Some v \<and> k \<notin> snd (first_pass tt)
   \<longleftrightarrow> (\<exists>u \<in> set (all_sessions tt). build_semester_key u = Some k \<and> semester u = Some v)
       \<and> (\<forall>u \<in> set (all_sessions tt). \<forall>w. build_semester_key u = Some k \<and> semester u = Some w
             \<longrightarrow> w = v)"
proof
  let ?st = "(Map.empty, {}) :: (semester_key \<rightharpoonup> int) \<times> semester_key set"
  let ?S = "all_sessions tt"
  assume a: "fst (first_pass tt) k = Some v \<and> k \<notin> snd (first_pass tt)"
  then have "\<exists>u \<in> set ?S. build_semester_key u = Some k \<and> semester u = Some v"
    using fold_new [of ?st ?S k v] by (simp add: first_pass_all)
  moreover have "w = v"
    if "u \<in> set ?S" "build_semester_key u = Some k" "semester u = Some w" for u w
    using fold_seen [OF that, of ?st] a by (simp add: first_pass_all)
  ultimately show "(\<exists>u \<in> set ?S. build_semester_key u = Some k \<and> semester u = Some v)
       \<and> (\<forall>u \<in> set ?S. \<forall>w. build_semester_key u = Some k \<and> semester u = Some w \<longrightarrow> w = v)"
    by blast
next
  let ?st = "(Map.empty, {}) :: (semester_key \<rightharpoonup> int) \<times> semester_key set"
  let ?S = "all_sessions tt"
  assume a: "(\<exists>u \<in> set ?S. build_semester_key u = Some k \<and> semester u = Some v)
       \<and> (\<forall>u \<in> set ?S. \<forall>w. build_semester_key u = Some k \<and> semester u = Some w \<longrightarrow> w = v)"
  then obtain u where u: "u \<in> set ?S" "build_semester_key u = Some k" "semester u = Some v"
    by blast
  have no: "k \<notin> snd (first_pass tt)"
  proof
    assume "k \<in> snd (first_pass tt)"
    then have "k \<in> snd (foldl observe_session ?st ?S)" by (simp add: first_pass_all)
    from fold_conflict [OF this]
    obtain s x w where s: "s \<in> set ?S" "build_semester_key s = Some k" "semester s = Some x"
      "fst (foldl observe_session ?st ?S) k = Some w" "w \<noteq> x"
      by auto
    from s(1-3) a have "x = v" by blast
    moreover from fold_new [OF s(4)] a have "w = v" by auto
    ultimately show False using s(5) by simp
  qed
  moreover from fold_seen [OF u, of ?st] no have "fst (first_pass tt) k = Some v"
    by (simp add: first_pass_all)
  ultimately show "fst (first_pass tt) k = Some v \<and> k \<notin> snd (first_pass tt)" by simp
qed

lemma first_pass_conflict:
  assumes "u1 \<in> set (all_sessions tt)" "build_semester_key u1 = Some k" "semester u1 = Some w1"
    and "u2 \<in> set (all_sessions tt)" "build_semester_key u2 = Some k" "semester u2 = Some w2"
    and "w1 \<noteq> w2"
  shows "k \<in> snd (first_pass tt)"
  using fold_seen [OF assms(1-3), of "(Map.empty, {})"]
    fold_seen [OF assms(4-6), of "(Map.empty, {})"] assms(7)
  by (auto simp: first_pass_all)

lemma fill_session_keep: "semester s \<noteq> None \<Longrightarrow> fill_session m c s = s"
  by (simp add: fill_session_def)

lemma fill_session_conflict:
  "build_semester_key s = Some k \<Longrightarrow> k \<in> c \<Longrightarrow> fill_session m c s = s"
  by (simp add: fill_session_def)

lemma fill_session_semester:
  "semester s = None
   \<Longrightarrow> semester (fill_session m c s) = Some v
       \<longleftrightarrow> (\<exists>k. build_semester_key s = Some k \<and> m k = Some v \<and> k \<notin> c)"
  by (auto simp: fill_session_def split: option.splits)

lemma fill_session_frame:
  "fill_session m c s = s
   \<or> (semester s = None \<and> semester (fill_session m c s) \<noteq> None
      \<and> fill_session m c s = s\<lparr>semester := semester (fill_session m c s)\<rparr>)"
  by (auto simp: fill_session_def split: option.splits)

lemma all_sessions_map:
  "all_sessions (map (\<lambda>(day, day_rooms).
                        (day, map (\<lambda>(room, sessions). (room, map f sessions)) day_rooms)) tt)
   = map f (all_sessions tt)"
proof -
  have rooms: "concat (map (\<lambda>a. map f (snd a)) rs) = map f (concat (map snd rs))"
    for rs :: "(string \<times> ParsedSession list) list"
    by (induction rs) simp_all
  show ?thesis
    by (induction tt) (simp_all add: all_sessions_def split_beta comp_def rooms)
qed

lemma all_sessions_infer:
  "all_sessions (infer_missing_semesters tt)
   = map (fill_session (fst (first_pass tt)) (snd (first_pass tt))) (all_sessions tt)"
  by (cases "first_pass tt") (simp add: infer_missing_semesters_def all_sessions_map)

text \<open>
  Claim C3.  With \<open>S\<close> the sessions of a timetable in the order of the visit and \<open>S'\<close> the
  sessions after the inference, the two lists have the same length and at every
  position: a session with a semester is unchanged; a session without one has the
  semester \<open>v\<close> afterwards exactly when it has an identity key, some session of the
  timetable with that key has the semester \<open>v\<close>, and every session of the timetable with
  that key and a semester has \<open>v\<close>; and a session whose key is carried by two sessions
  with different semesters is unchanged.  The conditions read the set of the sessions,
  not their order.
\<close>

theorem semester_inference:
  "(let S = all_sessions tt;
        S' = all_sessions (infer_missing_semesters tt)
    in length S' = length S
       \<and> (\<forall>i < length S.
            (semester (S ! i) \<noteq> None \<longrightarrow> S' ! i = S ! i)
            \<and> (semester (S ! i) = None \<longrightarrow>
                 (\<forall>v. semester (S' ! i) = Some v \<longleftrightarrow>
                    (\<exists>k. build_semester_key (S ! i) = Some k
                       \<and> (\<exists>u \<in> set S. build_semester_key u = Some k \<and> semester u = Some v)
                       \<and> (\<forall>u \<in> set S. \<forall>w.
                            build_semester_key u = Some k \<and> semester u = Some w \<longrightarrow> w = v))))
            \<and> (\<forall>k. build_semester_key (S ! i) = Some k
                  \<and> (\<exists>u1 \<in> set S. \<exists>u2 \<in> set S. \<exists>w1 w2.
                        build_semester_key u1 = Some k \<and> semester u1 = Some w1
                        \<and> build_semester_key u2 = Some k \<and> semester u2 = Some w2
                        \<and> w1 \<noteq> w2)
                  \<longrightarrow> S' ! i = S ! i)))"
proof -
  let ?S = "all_sessions tt"
  let ?m = "fst (first_pass tt)"
  let ?c = "snd (first_pass tt)"
  let ?S' = "all_sessions (infer_missing_semesters tt)"
  have len: "length ?S' = length ?S" by (simp add: all_sessions_infer)
  have nth: "?S' ! i = fill_session ?m ?c (?S ! i)" if "i < length ?S" for i
    using that by (simp add: all_sessions_infer)
  have keep: "?S' ! i = ?S ! i" if "i < length ?S" "semester (?S ! i) \<noteq> None" for i
    using that by (simp add: nth fill_session_keep)
  have fill: "semester (?S' ! i) = Some v \<longleftrightarrow>
       (\<exists>k. build_semester_key (?S ! i) = Some k
          \<and> (\<exists>u \<in> set ?S. build_semester_key u = Some k \<and> semester u = Some v)
          \<and> (\<forall>u \<in> set ?S. \<forall>w. build_semester_key u = Some k \<and> semester u = Some w \<longrightarrow> w = v))"
    if "i < length ?S" "semester (?S ! i) = None" for i v
    unfolding nth [OF that(1)] fill_session_semester [OF that(2)]
      first_pass_agreed [symmetric] ..
  have conflict: "?S' ! i = ?S ! i"
    if "i < length ?S" "build_semester_key (?S ! i) = Some k"
      "\<exists>u1 \<in> set ?S. \<exists>u2 \<in> set ?S. \<exists>w1 w2.
          build_semester_key u1 = Some k \<and> semester u1 = Some w1
          \<and> build_semester_key u2 = Some k \<and> semester u2 = Some w2 \<and> w1 \<noteq> w2" for i k
  proof -
    from that(3) have "k \<in> ?c" using first_pass_conflict by blast
    with that(1,2) show ?thesis by (simp add: nth fill_session_conflict)
  qed
  show ?thesis
    unfolding Let_def
  proof (intro conjI allI impI)
    show "length ?S' = length ?S" by (rule len)
  next
    fix i assume "i < length ?S" "semester (?S ! i) \<noteq> None"
    then show "?S' ! i = ?S ! i" by (rule keep)
  next
    fix i v assume "i < length ?S" "semester (?S ! i) = None"
    then show "semester (?S' ! i) = Some v \<longleftrightarrow>
       (\<exists>k. build_semester_key (?S ! i) = Some k
          \<and> (\<exists>u \<in> set ?S. build_semester_key u = Some k \<and> semester u = Some v)
          \<and> (\<forall>u \<in> set ?S. \<forall>w. build_semester_key u = Some k \<and> semester u = Some w \<longrightarrow> w = v))"
      by (rule fill)
  next
    fix i k
    assume "i < length ?S"
      and "build_semester_key (?S ! i) = Some k
           \<and> (\<exists>u1 \<in> set ?S. \<exists>u2 \<in> set ?S. \<exists>w1 w2.
                build_semester_key u1 = Some k \<and> semester u1 = Some w1
                \<and> build_semester_key u2 = Some k \<and> semester u2 = Some w2 \<and> w1 \<noteq> w2)"
    then show "?S' ! i = ?S ! i" using conflict [of i k] by blast
  qed
qed

theorem semester_inference_witness:
  "map semester
     (all_sessions
        [(''Monday'',
          [(''R1'', parse_cell
              (join [CHR 0x0A]
                 [''Math # M1'', ''BS CS Regular 1 2021-2025 Semester# 3'',
                  ''Dr. A (09:00 - 10:30)'',
                  ''Physics # P1'', ''BS CS Regular 1 2021-2025'', ''Dr. B (11:00 - 12:00)''])
              [] True False)])])
   = [Some 3, None]
   \<and> map semester
     (all_sessions (infer_missing_semesters
        [(''Monday'',
          [(''R1'', parse_cell
              (join [CHR 0x0A]
                 [''Math # M1'', ''BS CS Regular 1 2021-2025 Semester# 3'',
                  ''Dr. A (09:00 - 10:30)'',
                  ''Physics # P1'', ''BS CS Regular 1 2021-2025'', ''Dr. B (11:00 - 12:00)''])
              [] True False)])]))
   = [Some 3, Some 3]"
proof -
  define a where
    "a = parse_session [''Math # M1'', ''BS CS Regular 1 2021-2025 Semester# 3'',
                        ''Dr. A (09:00 - 10:30)''] [] True False"
  define b where
    "b = parse_session [''Physics # P1'', ''BS CS Regular 1 2021-2025'',
                        ''Dr. B (11:00 - 12:00)''] [] True False"
  define tt where
    "tt = [(''Monday'',
          [(''R1'', parse_cell
              (join [CHR 0x0A]
                 [''Math # M1'', ''BS CS Regular 1 2021-2025 Semester# 3'',
                  ''Dr. A (09:00 - 10:30)'',
                  ''Physics # P1'', ''BS CS Regular 1 2021-2025'', ''Dr. B (11:00 - 12:00)''])
              [] True False)])]"
  have g: "group_lines (cell_lines (strip (join [CHR 0x0A]
                 [''Math # M1'', ''BS CS Regular 1 2021-2025 Semester# 3'',
                  ''Dr. A (09:00 - 10:30)'',
                  ''Physics # P1'', ''BS CS Regular 1 2021-2025'', ''Dr. B (11:00 - 12:00)''])))
      = [[''Math # M1'', ''BS CS Regular 1 2021-2025 Semester# 3'', ''Dr. A (09:00 - 10:30)''],
         [''Physics # P1'', ''BS CS Regular 1 2021-2025'', ''Dr. B (11:00 - 12:00)'']]"
    by code_simp
  have S: "all_sessions tt = [a, b]"
    unfolding tt_def parse_cell_groups g a_def b_def by (simp add: all_sessions_def)
  have "(let s = parse_session [''Math # M1'', ''BS CS Regular 1 2021-2025 Semester# 3'',
                        ''Dr. A (09:00 - 10:30)''] [] True False
         in (semester s, build_semester_key s))
        = (Some 3, Some (''BS'', ''CS'', ''Regular 1'', ''2021-2025''))"
    by code_simp
  then have sa: "semester a = Some 3"
    and ka: "build_semester_key a = Some (''BS'', ''CS'', ''Regular 1'', ''2021-2025'')"
    unfolding a_def by (simp_all add: Let_def)
  have "(let s = parse_session [''Physics # P1'', ''BS CS Regular 1 2021-2025'',
                        ''Dr. B (11:00 - 12:00)''] [] True False
         in (semester s, build_semester_key s))
        = (None, Some (''BS'', ''CS'', ''Regular 1'', ''2021-2025''))"
    by code_simp
  then have sb: "semester b = None"
    and kb: "build_semester_key b = Some (''BS'', ''CS'', ''Regular 1'', ''2021-2025'')"
    unfolding b_def by (simp_all add: Let_def)
  note T = semester_inference [of tt, unfolded Let_def S]
  from T have len: "length (all_sessions (infer_missing_semesters tt)) = 2" by simp
  from T have "0 < length [a, b] \<longrightarrow> (semester ([a, b] ! 0) \<noteq> None
      \<longrightarrow> all_sessions (infer_missing_semesters tt) ! 0 = [a, b] ! 0)"
    by blast
  with sa have 0: "all_sessions (infer_missing_semesters tt) ! 0 = a" by simp
  from T have "1 < length [a, b] \<longrightarrow> (semester ([a, b] ! 1) = None \<longrightarrow>
       (\<forall>v. semester (all_sessions (infer_missing_semesters tt) ! 1) = Some v \<longleftrightarrow>
          (\<exists>k. build_semester_key ([a, b] ! 1) = Some k
             \<and> (\<exists>u \<in> set [a, b]. build_semester_key u = Some k \<and> semester u = Some v)
             \<and> (\<forall>u \<in> set [a, b]. \<forall>w.
                  build_semester_key u = Some k \<and> semester u = Some w \<longrightarrow> w = v))))"
    by blast
  with sa sb ka kb have 1: "semester (all_sessions (infer_missing_semesters tt) ! 1) = Some 3"
    by simp
  from len obtain x y where xy: "all_sessions (infer_missing_semesters tt) = [x, y]"
    by (auto simp: length_Suc_conv eval_nat_numeral)
  with 0 1 sa have "map semester (all_sessions (infer_missing_semesters tt)) = [Some 3, Some 3]"
    by simp
  moreover from S sa sb have "map semester (all_sessions tt) = [Some 3, None]" by simp
  ultimately show ?thesis unfolding tt_def by simp
qed

text \<open>
  Claim C10.  The timetable after the inference has the same days in the same order, every
  day the same rooms in the same order, and every room as many sessions, each one
  either the session that stood there, or that session, whose semester was empty, with
  a semester and no other field changed.
\<close>

theorem inference_frame:
  "map fst (infer_missing_semesters tt) = map fst tt
   \<and> list_all2
       (\<lambda>(day, day_rooms) (day', day_rooms').
          day' = day
          \<and> map fst day_rooms' = map fst day_rooms
          \<and> list_all2
              (\<lambda>(room, sessions) (room', sessions').
                 room' = room
                 \<and> list_all2
                     (\<lambda>s s'. s' = s
                        \<or> (semester s = None \<and> semester s' \<noteq> None
                           \<and> s' = s\<lparr>semester := semester s'\<rparr>))
                     sessions sessions')
              day_rooms day_rooms')
       tt (infer_missing_semesters tt)"
proof -
  obtain m c where fp: "first_pass tt = (m, c)" by (cases "first_pass tt")
  have sessions: "list_all2
       (\<lambda>s s'. s' = s
          \<or> (semester s = None \<and> semester s' \<noteq> None \<and> s' = s\<lparr>semester := semester s'\<rparr>))
       ss (map (fill_session m c) ss)" for ss
    unfolding list_all2_map2 using fill_session_frame [of m c]
    by (intro list_all2_all_nthI) auto
  have rooms: "list_all2
       (\<lambda>(room, sessions) (room', sessions').
          room' = room
          \<and> list_all2
              (\<lambda>s s'. s' = s
                 \<or> (semester s = None \<and> semester s' \<noteq> None
                    \<and> s' = s\<lparr>semester := semester s'\<rparr>))
              sessions sessions')
       rs (map (\<lambda>(room, sessions). (room, map (fill_session m c) sessions)) rs)" for rs
    unfolding list_all2_map2
    by (intro list_all2_all_nthI) (simp_all add: split_beta sessions del: not_None_eq)
  have keys: "map fst (map (\<lambda>(room, sessions). (room, map (fill_session m c) sessions)) rs)
              = map fst rs" for rs :: "(string \<times> ParsedSession list) list"
    by (simp add: split_beta comp_def)
  have days: "map fst (infer_missing_semesters tt) = map fst tt"
    by (simp add: infer_missing_semesters_def fp split_beta comp_def)
  moreover have "list_all2
       (\<lambda>(day, day_rooms) (day', day_rooms').
          day' = day
          \<and> map fst day_rooms' = map fst day_rooms
          \<and> list_all2
              (\<lambda>(room, sessions) (room', sessions').
                 room' = room
                 \<and> list_all2
                     (\<lambda>s s'. s' = s
                        \<or> (semester s = None \<and> semester s' \<noteq> None
                           \<and> s' = s\<lparr>semester := semester s'\<rparr>))
                     sessions sessions')
              day_rooms day_rooms')
       tt (infer_missing_semesters tt)"
    unfolding infer_missing_semesters_def fp prod.case list_all2_map2
    by (intro list_all2_all_nthI) (simp_all add: split_beta rooms keys del: not_None_eq)
  ultimately show ?thesis by simp
qed

section \<open>Resolving a truncated program line\<close>













subsection \<open>The day of a merged header cell\<close>

lemma normalize_day_in_names: "normalize_day v = Some d \<Longrightarrow> d \<in> set DAY_NAMES"
  unfolding normalize_day_def by (auto simp: find_Some_iff)

lemma normalize_day_truthy: "normalize_day v = Some d \<Longrightarrow> truthy (normalize_day v)"
  using normalize_day_in_names [of v d] by (auto simp: truthy_def DAY_NAMES_def)

lemma normalize_day_empty: "normalize_day [] = None"
  by (simp add: normalize_day_def DAY_NAMES_def strip_def lower_def startswith_def)

lemma day_columns_loop_before:
  "n < idx \<Longrightarrow> day_columns_loop idx vs last_day m n = m n"
  by (induction vs arbitrary: idx last_day m) (auto simp: Let_def set_item_def split: option.splits)

lemma day_columns_loop_blank:
  assumes "i < length vs" "vs ! i = []" "d \<noteq> []" "0 < idx + i"
    and "\<forall>k < i. normalize_day (vs ! k) = None"
  shows "day_columns_loop idx vs (Some d) m (idx + i) = Some d"
  using assms
proof (induction vs arbitrary: idx i m)
  case Nil
  then show ?case by simp
next
  case (Cons v rest)
  show ?case
  proof (cases i)
    case 0
    with Cons.prems have "v = []" "0 < idx" by simp_all
    then show ?thesis using 0 Cons.prems(3)
      by (simp add: normalize_day_empty truthy_def set_item_def day_columns_loop_before)
  next
    case (Suc i')
    with Cons.prems have nd: "normalize_day v = None" by auto
    have "\<forall>k < i'. normalize_day (rest ! k) = None"
      using Cons.prems(5) Suc by auto
    then have "day_columns_loop (Suc idx) rest (Some d) m' (Suc idx + i') = Some d" for m'
      using Cons.IH [of i' "Suc idx" m'] Cons.prems Suc by simp
    then show ?thesis using nd Suc by (simp add: truthy_def Let_def)
  qed
qed

lemma day_columns_loop_merged:
  assumes "j < i" "i < length vs" "normalize_day (vs ! j) = Some d" "vs ! i = []"
    and "\<forall>k. j < k \<and> k < i \<longrightarrow> normalize_day (vs ! k) = None"
  shows "day_columns_loop idx vs last_day m (idx + i) = Some d"
  using assms
proof (induction vs arbitrary: idx i j m last_day)
  case Nil
  then show ?case by simp
next
  case (Cons v rest)
  from Cons.prems obtain i' where i: "i = Suc i'" by (cases i) auto
  show ?case
  proof (cases j)
    case 0
    with Cons.prems have day: "normalize_day v = Some d" by simp
    then have d: "d \<noteq> []" using normalize_day_in_names by (auto simp: DAY_NAMES_def)
    have "\<forall>k < i'. normalize_day (rest ! k) = None"
      using Cons.prems(5) 0 i by auto
    then have "day_columns_loop (Suc idx) rest (Some d) m' (Suc idx + i') = Some d" for m'
      using day_columns_loop_blank [of i' rest d "Suc idx" m'] Cons.prems i d by simp
    then show ?thesis using day normalize_day_truthy [OF day] i by (simp add: Let_def)
  next
    case (Suc j')
    have "\<forall>k. j' < k \<and> k < i' \<longrightarrow> normalize_day (rest ! k) = None"
      using Cons.prems(5) Suc i by auto
    then have "day_columns_loop (Suc idx) rest ld m' (Suc idx + i') = Some d" for m' ld
      using Cons.IH [of j' i' "Suc idx" ld m'] Cons.prems Suc i by simp
    then show ?thesis using i by (simp add: Let_def)
  qed
qed

text \<open>
  Claim C9.  In a header row, a cell that is blank once stripped, stands after the first
  column and comes after a cell naming a day, with no day named in between, is mapped
  to that day: the most recently seen one.  In the row Room, Monday, blank, Tuesday the
  first column has no day, columns 1 and 2 are Monday and column 3 is Tuesday.
\<close>

theorem merged_day_header:
  "(\<forall>j i d. j < i \<and> i < length row
        \<and> normalize_day (strip (row ! j)) = Some d
        \<and> (\<forall>k. j < k \<and> k < i \<longrightarrow> normalize_day (strip (row ! k)) = None)
        \<and> strip (row ! i) = []
      \<longrightarrow> header_day_columns row i = Some d)
   \<and> header_day_columns [''Room'', ''Monday'', '''', ''Tuesday''] 0 = None
   \<and> header_day_columns [''Room'', ''Monday'', '''', ''Tuesday''] 1 = Some ''Monday''
   \<and> header_day_columns [''Room'', ''Monday'', '''', ''Tuesday''] 2 = Some ''Monday''
   \<and> header_day_columns [''Room'', ''Monday'', '''', ''Tuesday''] 3 = Some ''Tuesday''"
proof -
  have general: "header_day_columns row i = Some d"
    if "j < i" "i < length row" "normalize_day (strip (row ! j)) = Some d"
      "\<forall>k. j < k \<and> k < i \<longrightarrow> normalize_day (strip (row ! k)) = None"
      "strip (row ! i) = []" for j i d
  proof -
    have "day_columns_loop 0 (map strip row) None Map.empty (0 + i) = Some d"
      using that by (intro day_columns_loop_merged [of j]) auto
    then show ?thesis by (simp add: header_day_columns_def)
  qed
  have nd: "normalize_day ''Room'' = None" "normalize_day ''Monday'' = Some ''Monday''"
    "normalize_day ''Tuesday'' = Some ''Tuesday''"
    by (simp_all add: normalize_day_def DAY_NAMES_def strip_def lower_def lower_char_def
        startswith_def isspace_def)
  have st: "strip ''Room'' = ''Room''" "strip ''Monday'' = ''Monday''" "strip [] = []"
    "strip ''Tuesday'' = ''Tuesday''"
    by (simp_all add: strip_def isspace_def)
  have "header_day_columns [''Room'', ''Monday'', '''', ''Tuesday''] 0 = None"
    "header_day_columns [''Room'', ''Monday'', '''', ''Tuesday''] 1 = Some ''Monday''"
    "header_day_columns [''Room'', ''Monday'', '''', ''Tuesday''] 2 = Some ''Monday''"
    "header_day_columns [''Room'', ''Monday'', '''', ''Tuesday''] 3 = Some ''Tuesday''"
    by (simp_all add: header_day_columns_def st nd normalize_day_empty truthy_def set_item_def
        Let_def eval_nat_numeral)
  with general show ?thesis by blast
qed

theorem merged_day_header_witness:
  "(1::nat) < 2 \<and> 2 < length [''Room'', ''Monday'', '''', ''Tuesday'']
   \<and> normalize_day (strip ([''Room'', ''Monday'', '''', ''Tuesday''] ! 1)) = Some ''Monday''
   \<and> strip ([''Room'', ''Monday'', '''', ''Tuesday''] ! 2) = []
   \<and> header_day_columns [''Room'', ''Monday'', '''', ''Tuesday''] 2 = Some ''Monday''"
proof -
  have st: "strip ''Monday'' = ''Monday''" "strip [] = []"
    by (simp_all add: strip_def isspace_def)
  have nd: "normalize_day ''Monday'' = Some ''Monday''"
    by (simp add: normalize_day_def DAY_NAMES_def strip_def lower_def lower_char_def
        startswith_def isspace_def)
  have pre: "(1::nat) < 2 \<and> 2 < length [''Room'', ''Monday'', '''', ''Tuesday'']
      \<and> normalize_day (strip ([''Room'', ''Monday'', '''', ''Tuesday''] ! 1)) = Some ''Monday''
      \<and> (\<forall>k. 1 < k \<and> k < 2
            \<longrightarrow> normalize_day (strip ([''Room'', ''Monday'', '''', ''Tuesday''] ! k)) = None)
      \<and> strip ([''Room'', ''Monday'', '''', ''Tuesday''] ! 2) = []"
    by (simp add: st nd)
  from merged_day_header [of "[''Room'', ''Monday'', '''', ''Tuesday'']"]
  have "header_day_columns [''Room'', ''Monday'', '''', ''Tuesday''] 2 = Some ''Monday''"
    using pre by blast
  with pre show ?thesis by blast
qed

end
